theory Spec2Isabelle
  imports Complex_Main
begin

section \<open>Numbers and geometry primitives\<close>

text \<open>
  The editor is written in TypeScript; every \<^verbatim>\<open>number\<close> of the source is modelled as a
  \<^typ>\<open>real\<close>. The arithmetic of the camera, the click pulse, the segments and the smoke
  check is exact: rounding of doubles is left out there. The cursor smoothing is modelled
  with the rounding of doubles, because its contract speaks of exact values. Not-a-number
  and the infinities are left out everywhere. Timestamps are milliseconds.
\<close>

definition clamp :: "real \<Rightarrow> real \<Rightarrow> real \<Rightarrow> real" where
  "clamp v lo hi = min (max v lo) hi"

record NormalizedRect =
  rect_x :: real
  rect_y :: real
  rect_width :: real
  rect_height :: real

record CameraSpring =
  mass :: real
  stiffness :: real
  damping :: real

definition FULL_RECT :: NormalizedRect where
  "FULL_RECT = \<lparr>rect_x = 0, rect_y = 0, rect_width = 1, rect_height = 1\<rparr>"

definition DEFAULT_RECT :: NormalizedRect where
  "DEFAULT_RECT = \<lparr>rect_x = 0.2, rect_y = 0.2, rect_width = 0.6, rect_height = 0.6\<rparr>"

definition DEFAULT_SPRING :: CameraSpring where
  "DEFAULT_SPRING = \<lparr>mass = 1, stiffness = 170, damping = 26\<rparr>"

definition MIN_RECT_SIZE :: real where "MIN_RECT_SIZE = 0.05"
definition MIN_SEGMENT_MS :: real where "MIN_SEGMENT_MS = 200"
definition MIN_SEGMENT_GAP_MS :: real where "MIN_SEGMENT_GAP_MS = 200"
definition PREVIEW_SPRING_FPS :: real where "PREVIEW_SPRING_FPS = 60"
definition EFFECTIVE_ZOOM_EPSILON :: real where "EFFECTIVE_ZOOM_EPSILON = 0.001"
definition CLICK_PULSE_MIN_SCALE :: real where "CLICK_PULSE_MIN_SCALE = 0.82"
definition CLICK_PULSE_TOTAL_MS :: real where "CLICK_PULSE_TOTAL_MS = 150"
definition CLICK_PULSE_DOWN_MS :: real where "CLICK_PULSE_DOWN_MS = 65"

definition normalizeRect :: "NormalizedRect \<Rightarrow> NormalizedRect" where
  "normalizeRect r =
     (let w = clamp (rect_width r) MIN_RECT_SIZE 1;
          h = clamp (rect_height r) MIN_RECT_SIZE 1;
          x = clamp (rect_x r) 0 (1 - w);
          y = clamp (rect_y r) 0 (1 - h)
      in \<lparr>rect_x = x, rect_y = y, rect_width = w, rect_height = h\<rparr>)"

section \<open>Spring camera integrator\<close>

record SpringStepResult =
  step_value :: real
  step_velocity :: real

definition springStep :: "real \<Rightarrow> real \<Rightarrow> real \<Rightarrow> CameraSpring \<Rightarrow> real \<Rightarrow> SpringStepResult" where
  "springStep current velocity target spring dtSeconds =
     (let safeDt = clamp dtSeconds 0.0001 0.1;
          accel = ((target - current) * stiffness spring - damping spring * velocity) / mass spring;
          nextVelocity = velocity + accel * safeDt
      in \<lparr>step_value = current + nextVelocity * safeDt, step_velocity = nextVelocity\<rparr>)"

text \<open>
  Modelled from the spec: the type declarations \<^verbatim>\<open>ZoomMode\<close> and \<^verbatim>\<open>ZoomTrigger\<close> that the
  editor imports from \<^verbatim>\<open>types/project\<close> are not among the sources. The specification gives
  the modes \<^verbatim>\<open>fixed | follow-cursor\<close> and the triggers \<^verbatim>\<open>auto-click | auto-scroll | manual\<close>,
  which are also the literals that \<^verbatim>\<open>normalizeSegmentMode\<close> and
  \<^verbatim>\<open>normalizeSegmentTrigger\<close> compare with.
\<close>

datatype ZoomMode = Fixed | FollowCursor

datatype ZoomTrigger = AutoClick | AutoScroll | Manual

record TargetPoint =
  tp_ts :: real
  tp_rect :: NormalizedRect

record RuntimeSegment =
  rs_id :: string
  rs_startTs :: real
  rs_endTs :: real
  rs_isAuto :: bool
  rs_mode :: ZoomMode
  rs_trigger :: ZoomTrigger
  rs_baseRect :: NormalizedRect
  rs_targetPoints :: "TargetPoint list"
  rs_spring :: CameraSpring

definition getTargetRectAtTs :: "RuntimeSegment \<Rightarrow> real \<Rightarrow> NormalizedRect" where
  "getTargetRectAtTs segment timelineTs =
     (case rs_targetPoints segment of
        [] \<Rightarrow> rs_baseRect segment
      | p0 # _ \<Rightarrow>
          if timelineTs \<le> tp_ts p0 then tp_rect p0
          else if timelineTs \<ge> tp_ts (last (rs_targetPoints segment))
            then tp_rect (last (rs_targetPoints segment))
          else (case find (\<lambda>point. timelineTs \<ge> tp_ts point) (rev (rs_targetPoints segment)) of
                  Some point \<Rightarrow> tp_rect point
                | None \<Rightarrow> tp_rect p0))"

definition resolveRuntimeSegment :: "RuntimeSegment list \<Rightarrow> real \<Rightarrow> RuntimeSegment option" where
  "resolveRuntimeSegment segments timelineTs =
     find (\<lambda>segment. timelineTs \<ge> rs_startTs segment \<and> timelineTs < rs_endTs segment) segments"

text \<open>
  \<^verbatim>\<open>buildSpringCameraTrack\<close> keeps one mutable rectangle object in the variable
  \<^verbatim>\<open>rect\<close>, assigns to its fields, replaces it by the fresh object that
  \<^verbatim>\<open>normalizeRect\<close> returns and pushes that same object into the sample array.
  Objects are therefore modelled by an explicit store: a reference is an index into the list
  of allocated rectangles, a sample holds a timestamp and a reference.
  Reference 0 is the shared constant \<^verbatim>\<open>FULL_RECT\<close>, reference 1 the copy
  \<^verbatim>\<open>{ ...FULL_RECT }\<close>.
\<close>

type_synonym ref = nat

record SampleRef =
  ref_ts :: real
  ref_rect :: ref

record TrackState =
  store :: "NormalizedRect list"
  samples :: "SampleRef list"
  rect :: ref
  vx :: real
  vy :: real
  vw :: real
  vh :: real
  previousTs :: real
  frame :: nat

record SpringCameraSample =
  sample_ts :: real
  sample_rect :: NormalizedRect

definition stepMs :: "real \<Rightarrow> real" where
  "stepMs fps = 1000 / max 1 fps"

text \<open>The part of the loop body after the \<^verbatim>\<open>continue\<close> guard.\<close>

definition integrateFrame :: "RuntimeSegment list \<Rightarrow> real \<Rightarrow> TrackState \<Rightarrow> TrackState" where
  "integrateFrame runtimeSegments ts st =
     (let activeSegment = resolveRuntimeSegment runtimeSegments (previousTs st);
          targetRect = (case activeSegment of
                          Some segment \<Rightarrow> getTargetRectAtTs segment (previousTs st)
                        | None \<Rightarrow> FULL_RECT);
          spring = (case activeSegment of Some segment \<Rightarrow> rs_spring segment | None \<Rightarrow> DEFAULT_SPRING);
          dtSeconds = (ts - previousTs st) / 1000;
          r = rect st;
          stepX = springStep (rect_x (store st ! r)) (vx st) (rect_x targetRect) spring dtSeconds;
          s1 = (store st)[r := (store st ! r)\<lparr>rect_x := step_value stepX\<rparr>];
          stepY = springStep (rect_y (s1 ! r)) (vy st) (rect_y targetRect) spring dtSeconds;
          s2 = s1[r := (s1 ! r)\<lparr>rect_y := step_value stepY\<rparr>];
          stepW = springStep (rect_width (s2 ! r)) (vw st) (rect_width targetRect) spring dtSeconds;
          s3 = s2[r := (s2 ! r)\<lparr>rect_width := step_value stepW\<rparr>];
          stepH = springStep (rect_height (s3 ! r)) (vh st) (rect_height targetRect) spring dtSeconds;
          s4 = s3[r := (s3 ! r)\<lparr>rect_height := step_value stepH\<rparr>];
          r' = length s4;
          s5 = s4 @ [normalizeRect (s4 ! r)]
      in st\<lparr>store := s5,
            samples := samples st @ [\<lparr>ref_ts = ts, ref_rect = r'\<rparr>],
            rect := r',
            vx := step_velocity stepX, vy := step_velocity stepY,
            vw := step_velocity stepW, vh := step_velocity stepH,
            previousTs := ts\<rparr>)"

function trackLoop :: "RuntimeSegment list \<Rightarrow> real \<Rightarrow> real \<Rightarrow> TrackState \<Rightarrow> TrackState" where
  "trackLoop runtimeSegments durationMs fps st =
     (if previousTs st < durationMs then
        (let ts = min (of_int (round (real (frame st) * stepMs fps))) durationMs;
             st' = st\<lparr>frame := frame st + 1\<rparr>
         in if ts \<le> previousTs st then trackLoop runtimeSegments durationMs fps st'
            else trackLoop runtimeSegments durationMs fps (integrateFrame runtimeSegments ts st'))
      else st)"
  by pat_completeness auto

termination trackLoop
proof (relation "measure (\<lambda>(segs, d, fps, st).
          if previousTs st < d then 1 + (nat \<lceil>(d + 1) / stepMs fps\<rceil> + 1 - frame st) else 0)",
       goal_cases)
  case 1
  show ?case by simp
next
  case (2 runtimeSegments durationMs fps st ts st')
  have "of_int (round (real (frame st) * stepMs fps)) < durationMs"
    using 2 by (simp add: min_def split: if_splits)
  then have "frame st < nat \<lceil>(durationMs + 1) / stepMs fps\<rceil>"
  proof -
    assume r: "of_int (round (real (frame st) * stepMs fps)) < durationMs"
    have pos: "0 < stepMs fps" by (simp add: stepMs_def)
    have "real (frame st) * stepMs fps - 1 / 2 \<le> of_int (round (real (frame st) * stepMs fps))"
      using of_int_round_ge [of "real (frame st) * stepMs fps"] by simp
    with r have "real (frame st) * stepMs fps < durationMs + 1" by linarith
    then have "real (frame st) < (durationMs + 1) / stepMs fps"
      using pos by (simp add: pos_less_divide_eq)
    also have "\<dots> \<le> of_int \<lceil>(durationMs + 1) / stepMs fps\<rceil>" by simp
    finally have "int (frame st) < \<lceil>(durationMs + 1) / stepMs fps\<rceil>" by linarith
    then show ?thesis by linarith
  qed
  moreover have "previousTs st' = previousTs st" and "frame st' = frame st + 1"
    using 2 by simp_all
  ultimately show ?case using 2(1) by simp
next
  case (3 runtimeSegments durationMs fps st ts st')
  have fr: "frame (integrateFrame runtimeSegments ts st') = frame st + 1"
    and pr: "previousTs (integrateFrame runtimeSegments ts st') = ts"
    using 3 by (simp_all add: integrateFrame_def Let_def)
  show ?case
  proof (cases "ts < durationMs")
    case True
    have r: "of_int (round (real (frame st) * stepMs fps)) < durationMs"
      using 3 True by (simp add: min_def split: if_splits)
    have pos: "0 < stepMs fps" by (simp add: stepMs_def)
    have "real (frame st) * stepMs fps - 1 / 2 \<le> of_int (round (real (frame st) * stepMs fps))"
      using of_int_round_ge [of "real (frame st) * stepMs fps"] by simp
    with r have "real (frame st) * stepMs fps < durationMs + 1" by linarith
    then have "real (frame st) < (durationMs + 1) / stepMs fps"
      using pos by (simp add: pos_less_divide_eq)
    also have "\<dots> \<le> of_int \<lceil>(durationMs + 1) / stepMs fps\<rceil>" by simp
    finally have "int (frame st) < \<lceil>(durationMs + 1) / stepMs fps\<rceil>" by linarith
    then have "frame st < nat \<lceil>(durationMs + 1) / stepMs fps\<rceil>" by linarith
    then show ?thesis using 3(1) True fr pr by simp
  next
    case False
    then show ?thesis using 3(1) pr by simp
  qed
qed

declare trackLoop.simps [simp del]

definition initialTrackState :: TrackState where
  "initialTrackState =
     \<lparr>store = [FULL_RECT, FULL_RECT], samples = [\<lparr>ref_ts = 0, ref_rect = 0\<rparr>], rect = 1,
      vx = 0, vy = 0, vw = 0, vh = 0, previousTs = 0, frame = 1\<rparr>"

definition readSamples :: "NormalizedRect list \<Rightarrow> SampleRef list \<Rightarrow> SpringCameraSample list" where
  "readSamples st refs = map (\<lambda>s. \<lparr>sample_ts = ref_ts s, sample_rect = st ! ref_rect s\<rparr>) refs"

definition buildSpringCameraTrack :: "RuntimeSegment list \<Rightarrow> real \<Rightarrow> real \<Rightarrow> SpringCameraSample list" where
  "buildSpringCameraTrack runtimeSegments durationMs fps =
     (if durationMs \<le> 0 then readSamples [FULL_RECT] [\<lparr>ref_ts = 0, ref_rect = 0\<rparr>]
      else (let st = trackLoop runtimeSegments durationMs fps initialTrackState
            in readSamples (store st) (samples st)))"


text \<open>
  A manual, fixed-mode segment as \<^verbatim>\<open>toRuntimeSegments\<close> hands it to the integrator:
  two target points at the segment bounds carrying the base rectangle, and a stiff undamped
  spring that lies inside the range \<^verbatim>\<open>normalizeSpring\<close> accepts.
\<close>

definition demoSegment :: RuntimeSegment where
  "demoSegment =
     \<lparr>rs_id = ''manual-1'', rs_startTs = 0, rs_endTs = 50, rs_isAuto = False,
      rs_mode = Fixed, rs_trigger = Manual,
      rs_baseRect = \<lparr>rect_x = 1/4, rect_y = 1/4, rect_width = 1/2, rect_height = 1/2\<rparr>,
      rs_targetPoints =
        [\<lparr>tp_ts = 0, tp_rect = \<lparr>rect_x = 1/4, rect_y = 1/4, rect_width = 1/2, rect_height = 1/2\<rparr>\<rparr>,
         \<lparr>tp_ts = 50, tp_rect = \<lparr>rect_x = 1/4, rect_y = 1/4, rect_width = 1/2, rect_height = 1/2\<rparr>\<rparr>],
      rs_spring = \<lparr>mass = 1, stiffness = 5000, damping = 0\<rparr>\<rparr>"

text \<open>The loop invariant used for the camera track: the pushed timestamps increase strictly,
  start at 0 and end at \<^verbatim>\<open>previousTs\<close>, which never exceeds the duration.\<close>

definition trackOk :: "real \<Rightarrow> TrackState \<Rightarrow> bool" where
  "trackOk d st \<longleftrightarrow> samples st \<noteq> [] \<and> sorted_wrt (<) (map ref_ts (samples st))
      \<and> ref_ts (hd (samples st)) = 0
      \<and> ref_ts (last (samples st)) = previousTs st \<and> previousTs st \<le> d"

text \<open>The rectangle invariants, and the second loop invariant: the sample pushed last refers to
  a valid rectangle.\<close>

definition validRect :: "NormalizedRect \<Rightarrow> bool" where
  "validRect r \<longleftrightarrow> MIN_RECT_SIZE \<le> rect_width r \<and> rect_width r \<le> 1
     \<and> MIN_RECT_SIZE \<le> rect_height r \<and> rect_height r \<le> 1
     \<and> 0 \<le> rect_x r \<and> 0 \<le> rect_y r
     \<and> rect_x r + rect_width r \<le> 1 \<and> rect_y r + rect_height r \<le> 1"

definition lastOk :: "TrackState \<Rightarrow> bool" where
  "lastOk st \<longleftrightarrow> samples st \<noteq> [] \<and> ref_rect (last (samples st)) < length (store st)
     \<and> validRect (store st ! ref_rect (last (samples st)))"

section \<open>Cursor pipeline\<close>

subsection \<open>Click pulse\<close>

text \<open>The binary search of \<^verbatim>\<open>sampleClickPulseScale\<close> for the latest click at or before
  \<^verbatim>\<open>ts\<close>; indices are integers because \<^verbatim>\<open>high\<close> and \<^verbatim>\<open>nearestIndex\<close> may be -1.\<close>

function clickSearch :: "real list \<Rightarrow> real \<Rightarrow> int \<Rightarrow> int \<Rightarrow> int \<Rightarrow> int" where
  "clickSearch clickTimestamps ts low high nearestIndex =
     (if low \<le> high then
        (let mid = (low + high) div 2;
             clickTs = clickTimestamps ! nat mid
         in if clickTs \<le> ts then clickSearch clickTimestamps ts (mid + 1) high mid
            else clickSearch clickTimestamps ts low (mid - 1) nearestIndex)
      else nearestIndex)"
  by pat_completeness auto
termination
  by (relation "measure (\<lambda>(cs, ts, low, high, n). nat (high - low + 1))") auto

declare clickSearch.simps [simp del]

definition sampleClickPulseScale :: "real list \<Rightarrow> real \<Rightarrow> real" where
  "sampleClickPulseScale clickTimestamps ts =
     (if clickTimestamps = [] then 1
      else (let nearestIndex = clickSearch clickTimestamps ts 0 (int (length clickTimestamps) - 1) (- 1)
            in if nearestIndex < 0 then 1
               else (let dt = ts - clickTimestamps ! nat nearestIndex
                     in if dt < 0 \<or> dt > CLICK_PULSE_TOTAL_MS then 1
                        else if dt \<le> CLICK_PULSE_DOWN_MS
                          then (let t = dt / CLICK_PULSE_DOWN_MS in 1 - (1 - CLICK_PULSE_MIN_SCALE) * t)
                        else (let upDuration = max 1 (CLICK_PULSE_TOTAL_MS - CLICK_PULSE_DOWN_MS);
                                  t = (dt - CLICK_PULSE_DOWN_MS) / upDuration
                              in CLICK_PULSE_MIN_SCALE + (1 - CLICK_PULSE_MIN_SCALE) * t))))"

text \<open>The pulse of one click at \<open>tc\<close> as a function of time, written with \<open>min\<close> and \<open>max\<close>;
  it agrees with the branches of the code from the click onwards.\<close>

definition pulseProfile :: "real \<Rightarrow> real \<Rightarrow> real" where
  "pulseProfile tc u = min 1 (max (1 - (1 - 0.82) * ((u - tc) / 65)) (0.82 + (1 - 0.82) * ((u - tc - 65) / 85)))"

subsection \<open>Double-precision arithmetic\<close>

text \<open>
  The cursor smoothing is the one place where a statement about exact values is at stake, so
  there the arithmetic of the code is modelled with its rounding: every \<^verbatim>\<open>number\<close> is an
  IEEE 754 double, and the result of \<^verbatim>\<open>+\<close>, \<^verbatim>\<open>-\<close>, \<^verbatim>\<open>*\<close>, \<^verbatim>\<open>/\<close> and of a decimal literal is the
  exact value rounded to the nearest double, ties to the even significand. \<open>fl\<close> is that
  rounding on the reals. The doubles around a value of magnitude \<open>a\<close> are the multiples of
  \<open>spacing a\<close>, the power of two \<open>q\<close> with \<open>q * 2^52 \<le> a < q * 2^53\<close>, and never less than
  \<open>2^-1074\<close> (the subnormal range). The search for \<open>q\<close> starts at \<open>2^-52\<close>, the spacing between
  1 and 2, goes down while \<open>a\<close> is too small and up while it is too large. Overflow to
  \<^verbatim>\<open>Infinity\<close> (magnitudes of \<open>2^1024\<close> and more) and not-a-number are left out.
\<close>

definition roundHalfEven :: "real \<Rightarrow> int" where
  "roundHalfEven v =
     (let f = \<lfloor>v\<rfloor>; r = v - of_int f
      in if r < 1/2 then f else if 1/2 < r then f + 1 else if even f then f else f + 1)"

function spacingDown :: "real \<Rightarrow> real \<Rightarrow> int \<Rightarrow> real" where
  "spacingDown a q e =
     (if e \<le> - 1074 \<or> q * 4503599627370496 \<le> a then q else spacingDown a (q / 2) (e - 1))"
  by pat_completeness auto
termination
  by (relation "measure (\<lambda>(a, q, e). nat (e + 1074))") auto

function spacingUp :: "real \<Rightarrow> real \<Rightarrow> real" where
  "spacingUp a q = (if q \<le> 0 \<or> a < q * 9007199254740992 then q else spacingUp a (2 * q))"
  by pat_completeness auto
termination
proof (relation "measure (\<lambda>(a, q). if 0 < q \<and> q * 9007199254740992 \<le> a then nat \<lfloor>log 2 (a / q)\<rfloor> else 0)")
  show "wf (measure (\<lambda>(a, q). if 0 < q \<and> q * 9007199254740992 \<le> a then nat \<lfloor>log 2 (a / q)\<rfloor> else 0))"
    by simp
next
  fix a q :: real
  assume "\<not> (q \<le> 0 \<or> a < q * 9007199254740992)"
  then have q: "0 < q" and a: "q * 9007199254740992 \<le> a" by auto
  have apos: "0 < a"
  proof -
    have "0 < q * 9007199254740992" using q by (intro mult_pos_pos) simp_all
    then show ?thesis using a by (rule less_le_trans)
  qed
  have ratio: "0 < a / q" using q apos by (intro divide_pos_pos)
  have "9007199254740992 \<le> a / q"
    using q a by (subst pos_le_divide_eq) (simp_all only: mult.commute)
  moreover have "(9007199254740992::real) = 2 ^ 53" by simp
  ultimately have "2 ^ 53 \<le> a / q" by (simp only:)
  moreover have "(0::real) < 2 ^ 53" by (rule zero_less_power) simp
  ultimately have "log 2 (2 ^ 53) \<le> log 2 (a / q)"
    using ratio by (subst log_le_cancel_iff) simp_all
  moreover have "log 2 (2 ^ 53) = (53::real)" by (subst log_pow_cancel) auto
  ultimately have l53: "53 \<le> log 2 (a / q)" by (simp only:)
  have halve: "log 2 (v / 2) = log 2 v - 1" if "0 < v" for v :: real
    using that by (simp add: log_divide)
  have "log 2 (a / q / 2) = log 2 (a / q) - 1"
    using ratio by (rule halve)
  moreover have "a / (2 * q) = a / q / 2" by simp
  ultimately have half: "log 2 (a / (2 * q)) = log 2 (a / q) - 1" by (simp only:)
  have fl53: "53 \<le> \<lfloor>log 2 (a / q)\<rfloor>" using l53 by (simp add: le_floor_iff)
  have lt: "nat \<lfloor>log 2 (a / (2 * q))\<rfloor> < nat \<lfloor>log 2 (a / q)\<rfloor>"
    unfolding half using fl53 by simp
  have pos: "0 < nat \<lfloor>log 2 (a / q)\<rfloor>" using fl53 by simp
  have m: "(if 0 < q \<and> q * 9007199254740992 \<le> a then nat \<lfloor>log 2 (a / q)\<rfloor> else 0) = nat \<lfloor>log 2 (a / q)\<rfloor>"
    by (rule if_P) (use q a in blast)
  have "(if 0 < 2 * q \<and> 2 * q * 9007199254740992 \<le> a then nat \<lfloor>log 2 (a / (2 * q))\<rfloor> else 0)
          < nat \<lfloor>log 2 (a / q)\<rfloor>"
  proof (cases "0 < 2 * q \<and> 2 * q * 9007199254740992 \<le> a")
    case True
    show ?thesis unfolding if_P [OF True] by (rule lt)
  next
    case False
    show ?thesis unfolding if_not_P [OF False] by (rule pos)
  qed
  then show "((a, 2 * q), (a, q)) \<in> measure (\<lambda>(a, q). if 0 < q \<and> q * 9007199254740992 \<le> a then nat \<lfloor>log 2 (a / q)\<rfloor> else 0)"
    by (simp only: in_measure prod.case m)
qed

declare spacingDown.simps [simp del] spacingUp.simps [simp del]

definition spacing :: "real \<Rightarrow> real" where
  "spacing a = spacingUp a (spacingDown a (1 / 4503599627370496) (- 52))"

definition fl :: "real \<Rightarrow> real" where
  "fl v = (if v = 0 then 0 else (let q = spacing \<bar>v\<bar> in of_int (roundHalfEven (v / q)) * q))"

subsection \<open>Events file and cursor samples\<close>

datatype MouseButton = LeftButton | RightButton | MiddleButton

record BoundingRect =
  br_x :: real
  br_y :: real
  br_width :: real
  br_height :: real

record UiContext =
  appName :: "string option"
  controlName :: "string option"
  boundingRect :: "BoundingRect option"

record ScrollDelta =
  dx :: real
  dy :: real

text \<open>The tagged union \<^verbatim>\<open>InputEvent\<close>; the first argument of every constructor is
  \<^verbatim>\<open>ts\<close>, pointer events carry \<^verbatim>\<open>x\<close> and \<^verbatim>\<open>y\<close> next.\<close>

datatype InputEvent =
    MoveEvent real real real
  | ClickEvent real real real MouseButton "UiContext option"
  | MouseUpEvent real real real MouseButton
  | ScrollEvent real real real ScrollDelta
  | KeyDownEvent real string
  | KeyUpEvent real string

record EventsFile =
  schemaVersion :: nat
  recordingId :: string
  startTimeMs :: real
  screenWidth :: real
  screenHeight :: real
  scaleFactor :: real
  events :: "InputEvent list"

record CursorSample =
  cs_ts :: real
  cs_x :: real
  cs_y :: real

text \<open>The body of the first loop of \<^verbatim>\<open>extractCursorSamples\<close>: pointer events yield a
  normalized, clamped sample, key events none. The division is a double division.\<close>

fun eventSample :: "EventsFile \<Rightarrow> InputEvent \<Rightarrow> CursorSample option" where
  "eventSample eventsFile (MoveEvent ts x y) =
     Some \<lparr>cs_ts = ts, cs_x = clamp (fl (x / screenWidth eventsFile)) 0 1,
           cs_y = clamp (fl (y / screenHeight eventsFile)) 0 1\<rparr>"
| "eventSample eventsFile (ClickEvent ts x y button ctx) =
     Some \<lparr>cs_ts = ts, cs_x = clamp (fl (x / screenWidth eventsFile)) 0 1,
           cs_y = clamp (fl (y / screenHeight eventsFile)) 0 1\<rparr>"
| "eventSample eventsFile (MouseUpEvent ts x y button) =
     Some \<lparr>cs_ts = ts, cs_x = clamp (fl (x / screenWidth eventsFile)) 0 1,
           cs_y = clamp (fl (y / screenHeight eventsFile)) 0 1\<rparr>"
| "eventSample eventsFile (ScrollEvent ts x y delta) =
     Some \<lparr>cs_ts = ts, cs_x = clamp (fl (x / screenWidth eventsFile)) 0 1,
           cs_y = clamp (fl (y / screenHeight eventsFile)) 0 1\<rparr>"
| "eventSample eventsFile (KeyDownEvent ts keyCode) = None"
| "eventSample eventsFile (KeyUpEvent ts keyCode) = None"

text \<open>The array \<^verbatim>\<open>sorted\<close>: the samples in event order, sorted by timestamp.
  \<^verbatim>\<open>Array.prototype.sort\<close> is stable, and so is \<^const>\<open>sort_key\<close>; the comparator's rounded
  difference \<^verbatim>\<open>a.ts - b.ts\<close> has the sign of the exact one.\<close>

definition sortedSamples :: "EventsFile \<Rightarrow> CursorSample list" where
  "sortedSamples eventsFile = sort_key cs_ts (List.map_filter (eventSample eventsFile) (events eventsFile))"

text \<open>\<^verbatim>\<open>alpha = 1 - factor * 0.9\<close>: the literal is the double nearest to 9/10, the product
  and the difference are rounded.\<close>

definition smoothingAlpha :: "real \<Rightarrow> real" where
  "smoothingAlpha smoothingFactor =
     (let factor = clamp smoothingFactor 0 1 in fl (1 - fl (factor * fl (9/10))))"

text \<open>The smoothing loop from index 1 on; \<^verbatim>\<open>smoothedX\<close> and \<^verbatim>\<open>smoothedY\<close> are
  threaded through. \<^verbatim>\<open>smoothedX + alpha * (sample.x - smoothedX)\<close> rounds three times: the
  difference, the product and the sum.\<close>

fun smoothLoop :: "real \<Rightarrow> real \<Rightarrow> real \<Rightarrow> CursorSample list \<Rightarrow> CursorSample list" where
  "smoothLoop alpha smoothedX smoothedY [] = []"
| "smoothLoop alpha smoothedX smoothedY (sample # rest) =
     (let smoothedX' = fl (smoothedX + fl (alpha * fl (cs_x sample - smoothedX)));
          smoothedY' = fl (smoothedY + fl (alpha * fl (cs_y sample - smoothedY)))
      in \<lparr>cs_ts = cs_ts sample, cs_x = smoothedX', cs_y = smoothedY'\<rparr>
           # smoothLoop alpha smoothedX' smoothedY' rest)"

definition extractCursorSamples :: "EventsFile option \<Rightarrow> real \<Rightarrow> CursorSample list" where
  "extractCursorSamples eventsFile smoothingFactor =
     (case eventsFile of
        None \<Rightarrow> []
      | Some ef \<Rightarrow>
          if screenWidth ef \<le> 0 \<or> screenHeight ef \<le> 0 then []
          else (let sorted = sortedSamples ef
                in if length sorted \<le> 1 then sorted
                   else (let alpha = smoothingAlpha smoothingFactor
                         in hd sorted # smoothLoop alpha (cs_x (hd sorted)) (cs_y (hd sorted)) (tl sorted))))"

definition demoEvents :: EventsFile where
  "demoEvents =
     \<lparr>schemaVersion = 1, recordingId = ''rec-1'', startTimeMs = 0,
      screenWidth = 1000, screenHeight = 500, scaleFactor = 1,
      events = [MoveEvent 20 500 250, KeyDownEvent 15 ''KeyA'', MoveEvent 10 100 100,
                ClickEvent 30 1000 500 LeftButton None]\<rparr>"


text \<open>Two pointer positions on a 1920 by 1080 screen.\<close>

definition pixelEvents :: EventsFile where
  "pixelEvents =
     \<lparr>schemaVersion = 1, recordingId = ''rec-2'', startTimeMs = 0,
      screenWidth = 1920, screenHeight = 1080, scaleFactor = 1,
      events = [MoveEvent 0 3 540, MoveEvent 10 1 540]\<rparr>"
section \<open>Segment model\<close>

record PanKeyframe =
  pk_ts :: real
  offsetX :: real
  offsetY :: real

text \<open>
  Modelled from the spec: the declaration of \<^verbatim>\<open>ZoomSegment\<close> with the fields \<^verbatim>\<open>mode\<close> and
  \<^verbatim>\<open>trigger\<close> is not among the sources (the declaration at hand has neither). The
  specification lists them as \<^verbatim>\<open>mode: fixed|follow-cursor\<close> and
  \<^verbatim>\<open>trigger: auto-click|auto-scroll|manual\<close>; \<^verbatim>\<open>normalizeSegmentMode\<close> and
  \<^verbatim>\<open>normalizeSegmentTrigger\<close> accept them as possibly undefined. All other fields are those
  of the declaration at hand, its optional fields being options.
\<close>

record ZoomSegment =
  seg_id :: string
  startTs :: real
  endTs :: real
  initialRect :: "NormalizedRect option"
  targetRect :: "NormalizedRect option"
  targetPoints :: "TargetPoint list option"
  seg_spring :: "CameraSpring option"
  panTrajectory :: "PanKeyframe list option"
  seg_mode :: "ZoomMode option"
  seg_trigger :: "ZoomTrigger option"
  isAuto :: bool

subsection \<open>Gap search\<close>

record Gap =
  gap_start :: real
  gap_end :: real

record Slot =
  slot_startTs :: real
  slot_endTs :: real

definition gapAfter :: "real \<Rightarrow> real" where
  "gapAfter cursor = (if cursor \<le> 0 then 0 else cursor + MIN_SEGMENT_GAP_MS)"

text \<open>The loop over the sorted segments of \<^verbatim>\<open>findAvailableGapForSegment\<close>, with the
  variables \<^verbatim>\<open>cursor\<close> and \<^verbatim>\<open>gaps\<close> threaded through.\<close>

fun gapScan :: "real \<Rightarrow> ZoomSegment list \<Rightarrow> real \<Rightarrow> Gap list \<Rightarrow> real \<times> Gap list" where
  "gapScan safeDuration [] cursor gaps = (cursor, gaps)"
| "gapScan safeDuration (segment # rest) cursor gaps =
     (let segStart = clamp (startTs segment) 0 safeDuration;
          segEnd = clamp (endTs segment) 0 safeDuration;
          gaps' = (if segStart > cursor then
                     (let gapStart = gapAfter cursor;
                          gapEnd = segStart - MIN_SEGMENT_GAP_MS
                      in if gapEnd - gapStart \<ge> MIN_SEGMENT_MS
                         then gaps @ [\<lparr>gap_start = gapStart, gap_end = gapEnd\<rparr>] else gaps)
                   else gaps)
      in gapScan safeDuration rest (max cursor segEnd) gaps')"

definition findAvailableGapForSegment :: "ZoomSegment list \<Rightarrow> real \<Rightarrow> real \<Rightarrow> Slot option" where
  "findAvailableGapForSegment segments timelineDurationMs preferredStartTs =
     (let safeDuration = max 0 timelineDurationMs
      in if safeDuration < MIN_SEGMENT_MS then None
         else (let sorted = sort_key startTs segments;
                   (cursor, gaps0) = gapScan safeDuration sorted 0 [];
                   gaps = (if cursor < safeDuration then
                             (let gapStart = gapAfter cursor
                              in if safeDuration - gapStart \<ge> MIN_SEGMENT_MS
                                 then gaps0 @ [\<lparr>gap_start = gapStart, gap_end = safeDuration\<rparr>] else gaps0)
                           else gaps0);
                   preferred = clamp preferredStartTs 0 (safeDuration - MIN_SEGMENT_MS)
               in case find (\<lambda>gap. gap_end gap - gap_start gap \<ge> MIN_SEGMENT_MS \<and> preferred < gap_end gap) gaps of
                    None \<Rightarrow> None
                  | Some preferredGap \<Rightarrow>
                      (let gapStart = gap_start preferredGap;
                           gapEnd = gap_end preferredGap;
                           startTs0 = clamp preferred gapStart (max gapStart (gapEnd - MIN_SEGMENT_MS));
                           endTs0 = min (startTs0 + 1600) gapEnd
                       in if endTs0 - startTs0 < MIN_SEGMENT_MS
                          then Some \<lparr>slot_startTs = max gapStart (gapEnd - MIN_SEGMENT_MS), slot_endTs = gapEnd\<rparr>
                          else Some \<lparr>slot_startTs = startTs0, slot_endTs = endTs0\<rparr>)))"

text \<open>A span from \<open>a\<close> to \<open>b\<close> is clear of a segment when it ends a full gap before the segment
  starts, or starts a full gap after it ends, or the segment ends at or before time 0 where the
  timeline begins.\<close>

definition clearOf :: "real \<Rightarrow> real \<Rightarrow> ZoomSegment \<Rightarrow> bool" where
  "clearOf a b s \<longleftrightarrow> b + MIN_SEGMENT_GAP_MS \<le> startTs s \<or> endTs s + MIN_SEGMENT_GAP_MS \<le> a
                     \<or> (endTs s \<le> 0 \<and> 0 \<le> a)"

text \<open>A plain segment with the given identifier and bounds, as \<^verbatim>\<open>handleAddSegment\<close> creates it.\<close>

definition manualSegment :: "string \<Rightarrow> real \<Rightarrow> real \<Rightarrow> ZoomSegment" where
  "manualSegment name s e =
     \<lparr>seg_id = name, startTs = s, endTs = e, initialRect = Some DEFAULT_RECT, targetRect = None,
      targetPoints = Some [], seg_spring = Some DEFAULT_SPRING, panTrajectory = Some [],
      seg_mode = Some Fixed, seg_trigger = Some Manual, isAuto = False\<rparr>"

subsection \<open>Target points of a segment\<close>

text \<open>The zoom strength is taken of normalized rectangles only, whose sides are at least
  \<open>MIN_RECT_SIZE\<close>, so the division is by a positive number.\<close>

definition getZoomStrength :: "NormalizedRect \<Rightarrow> real" where
  "getZoomStrength r = 1 / max (rect_width r) (rect_height r)"

definition getSegmentBaseRect :: "ZoomSegment \<Rightarrow> NormalizedRect" where
  "getSegmentBaseRect segment =
     normalizeRect (case initialRect segment of
                      Some r \<Rightarrow> r
                    | None \<Rightarrow> (case targetRect segment of Some r \<Rightarrow> r | None \<Rightarrow> DEFAULT_RECT))"

definition getSortedPanTrajectory :: "ZoomSegment \<Rightarrow> PanKeyframe list" where
  "getSortedPanTrajectory segment =
     sort_key pk_ts (case panTrajectory segment of Some t \<Rightarrow> t | None \<Rightarrow> [])"

text \<open>The loop of \<^verbatim>\<open>panOffsetAtTime\<close> over neighbouring keyframes; \<open>None\<close> when it falls
  through.\<close>

fun panScan :: "real \<Rightarrow> PanKeyframe list \<Rightarrow> (real \<times> real) option" where
  "panScan ts (left # right # rest) =
     (if ts < pk_ts left \<or> ts > pk_ts right then panScan ts (right # rest)
      else (let span = pk_ts right - pk_ts left
            in if span \<le> 0 then Some (offsetX right, offsetY right)
               else (let t = (ts - pk_ts left) / span
                     in Some (offsetX left + (offsetX right - offsetX left) * t,
                              offsetY left + (offsetY right - offsetY left) * t))))"
| "panScan ts _ = None"

definition panOffsetAtTime :: "PanKeyframe list \<Rightarrow> real \<Rightarrow> real \<times> real" where
  "panOffsetAtTime trajectory ts =
     (case trajectory of
        [] \<Rightarrow> (0, 0)
      | k0 # _ \<Rightarrow>
          if ts \<le> pk_ts k0 then (0, 0)
          else if ts \<ge> pk_ts (last trajectory) then (offsetX (last trajectory), offsetY (last trajectory))
          else (case panScan ts trajectory of
                  Some off \<Rightarrow> off
                | None \<Rightarrow> (offsetX (last trajectory), offsetY (last trajectory))))"

definition getLegacyPanRectAtTimelineTs :: "ZoomSegment \<Rightarrow> real \<Rightarrow> NormalizedRect" where
  "getLegacyPanRectAtTimelineTs segment timelineTs =
     (let base = getSegmentBaseRect segment;
          (offX, offY) = panOffsetAtTime (getSortedPanTrajectory segment) timelineTs
      in normalizeRect \<lparr>rect_x = rect_x base + offX, rect_y = rect_y base + offY,
                         rect_width = rect_width base, rect_height = rect_height base\<rparr>)"

definition getSegmentTargetPoints :: "ZoomSegment \<Rightarrow> TargetPoint list" where
  "getSegmentTargetPoints segment =
     (let explicitPoints =
            sort_key tp_ts
              (map (\<lambda>point. \<lparr>tp_ts = clamp (tp_ts point) (startTs segment) (endTs segment),
                              tp_rect = normalizeRect (tp_rect point)\<rparr>)
                   (case targetPoints segment of Some ps \<Rightarrow> ps | None \<Rightarrow> []))
      in if explicitPoints \<noteq> [] then
           (let points = (if tp_ts (hd explicitPoints) > startTs segment
                          then [\<lparr>tp_ts = startTs segment, tp_rect = tp_rect (hd explicitPoints)\<rparr>]
                          else []) @ explicitPoints;
                lastPoint = last points
            in if tp_ts lastPoint < endTs segment
               then points @ [\<lparr>tp_ts = endTs segment, tp_rect = tp_rect lastPoint\<rparr>]
               else points)
         else (let legacyPan = getSortedPanTrajectory segment
               in if legacyPan = [] then
                    (let baseRect = getSegmentBaseRect segment
                     in [\<lparr>tp_ts = startTs segment, tp_rect = baseRect\<rparr>,
                         \<lparr>tp_ts = endTs segment, tp_rect = baseRect\<rparr>])
                  else sort_key tp_ts
                         ([\<lparr>tp_ts = startTs segment,
                            tp_rect = getLegacyPanRectAtTimelineTs segment (startTs segment)\<rparr>]
                          @ map (\<lambda>keyframe. \<lparr>tp_ts = pk_ts keyframe,
                                     tp_rect = getLegacyPanRectAtTimelineTs segment (pk_ts keyframe)\<rparr>)
                                (filter (\<lambda>keyframe. \<not> (pk_ts keyframe < startTs segment
                                                         \<or> pk_ts keyframe > endTs segment)) legacyPan)
                          @ [\<lparr>tp_ts = endTs segment,
                              tp_rect = getLegacyPanRectAtTimelineTs segment (endTs segment)\<rparr>])))"

subsection \<open>Trimming and sorting\<close>

definition isEffective :: "TargetPoint \<Rightarrow> bool" where
  "isEffective point \<longleftrightarrow> getZoomStrength (tp_rect point) > 1 + EFFECTIVE_ZOOM_EPSILON"

text \<open>\<^verbatim>\<open>trimAutoNoopSegment\<close>; the result \<open>None\<close> is the \<^verbatim>\<open>null\<close> of a dropped segment.\<close>

definition trimAutoNoopSegment :: "ZoomSegment \<Rightarrow> ZoomSegment option" where
  "trimAutoNoopSegment segment =
     (if \<not> isAuto segment then Some segment
      else (let points = getSegmentTargetPoints segment
            in if points = [] then Some segment
               else (case find isEffective points of
                       None \<Rightarrow> None
                     | Some firstEffective \<Rightarrow>
                         (let effectiveStartTs = clamp (tp_ts firstEffective) (startTs segment) (endTs segment)
                          in if effectiveStartTs \<ge> endTs segment then None
                             else (let trimmedPoints =
                                         map (\<lambda>point. \<lparr>tp_ts = clamp (tp_ts point) effectiveStartTs (endTs segment),
                                                         tp_rect = normalizeRect (tp_rect point)\<rparr>)
                                             (filter (\<lambda>point. tp_ts point \<ge> effectiveStartTs) points)
                                   in if trimmedPoints = [] then None
                                      else (let trimmed1 =
                                                  (if tp_ts (hd trimmedPoints) > effectiveStartTs
                                                   then \<lparr>tp_ts = effectiveStartTs, tp_rect = tp_rect (hd trimmedPoints)\<rparr>
                                                          # trimmedPoints
                                                   else trimmedPoints);
                                                lastPoint = last trimmed1;
                                                trimmed2 =
                                                  (if tp_ts lastPoint < endTs segment
                                                   then trimmed1 @ [\<lparr>tp_ts = endTs segment, tp_rect = tp_rect lastPoint\<rparr>]
                                                   else trimmed1)
                                            in Some (segment\<lparr>startTs := effectiveStartTs,
                                                             initialRect := Some (tp_rect (hd trimmed2)),
                                                             targetPoints := Some trimmed2\<rparr>)))))))"

text \<open>Points sorted by time, inside the bounds, with normalized rectangles.\<close>

definition okPoints :: "real \<Rightarrow> real \<Rightarrow> TargetPoint list \<Rightarrow> bool" where
  "okPoints lo hi ps \<longleftrightarrow> sorted (map tp_ts ps)
     \<and> (\<forall>p \<in> set ps. lo \<le> tp_ts p \<and> tp_ts p \<le> hi \<and> normalizeRect (tp_rect p) = tp_rect p)"

text \<open>The shape of the target points that a trim leaves behind: they start at the new segment
  start, end at the segment end, and the first effective point sits at the start.\<close>

definition goodTrim :: "real \<Rightarrow> TargetPoint list \<Rightarrow> bool" where
  "goodTrim en T \<longleftrightarrow> T \<noteq> [] \<and> okPoints (tp_ts (hd T)) en T \<and> tp_ts (hd T) < en \<and> tp_ts (last T) = en
     \<and> (\<exists>fe. find isEffective T = Some fe \<and> tp_ts fe = tp_ts (hd T))"

definition DEFAULT_SEGMENT_MODE :: ZoomMode where "DEFAULT_SEGMENT_MODE = Fixed"
definition DEFAULT_SEGMENT_TRIGGER :: ZoomTrigger where "DEFAULT_SEGMENT_TRIGGER = Manual"

definition normalizeSegmentMode :: "ZoomMode option \<Rightarrow> ZoomMode" where
  "normalizeSegmentMode m = (if m = Some FollowCursor then FollowCursor else DEFAULT_SEGMENT_MODE)"

definition normalizeSegmentTrigger :: "ZoomTrigger option \<Rightarrow> bool \<Rightarrow> ZoomTrigger" where
  "normalizeSegmentTrigger t auto =
     (case t of Some v \<Rightarrow> v | None \<Rightarrow> if auto then AutoClick else DEFAULT_SEGMENT_TRIGGER)"

definition normalizeZoomSegment :: "ZoomSegment \<Rightarrow> ZoomSegment" where
  "normalizeZoomSegment segment =
     (let normalizedMode = normalizeSegmentMode (seg_mode segment);
          m = (if isAuto segment then FollowCursor else normalizedMode)
      in segment\<lparr>seg_mode := Some m,
                  seg_trigger := Some (normalizeSegmentTrigger (seg_trigger segment) (isAuto segment))\<rparr>)"

definition sortSegments :: "ZoomSegment list \<Rightarrow> ZoomSegment list" where
  "sortSegments segments =
     sort_key startTs (List.map_filter trimAutoNoopSegment (map normalizeZoomSegment segments))"

definition zoomedRect :: NormalizedRect where
  "zoomedRect = \<lparr>rect_x = 1/4, rect_y = 1/4, rect_width = 1/2, rect_height = 1/2\<rparr>"

text \<open>An automatic segment whose first target point shows the full frame and whose second one,
  300 ms later, zooms in.\<close>

definition autoSegment :: ZoomSegment where
  "autoSegment =
     \<lparr>seg_id = ''auto-1'', startTs = 0, endTs = 1000, initialRect = Some FULL_RECT, targetRect = None,
      targetPoints = Some [\<lparr>tp_ts = 0, tp_rect = FULL_RECT\<rparr>, \<lparr>tp_ts = 300, tp_rect = zoomedRect\<rparr>],
      seg_spring = Some DEFAULT_SPRING, panTrajectory = Some [],
      seg_mode = Some FollowCursor, seg_trigger = Some AutoClick, isAuto = True\<rparr>"

text \<open>An automatic segment with two target points at its start time: the first shows the full
  frame, the second zooms in.\<close>

definition tiedSegment :: ZoomSegment where
  "tiedSegment =
     \<lparr>seg_id = ''auto-2'', startTs = 100, endTs = 1000, initialRect = Some FULL_RECT, targetRect = None,
      targetPoints = Some [\<lparr>tp_ts = 100, tp_rect = FULL_RECT\<rparr>, \<lparr>tp_ts = 100, tp_rect = zoomedRect\<rparr>],
      seg_spring = Some DEFAULT_SPRING, panTrajectory = Some [],
      seg_mode = Some FollowCursor, seg_trigger = Some AutoClick, isAuto = True\<rparr>"

subsection \<open>Dragging a segment on the timeline\<close>

record NeighborBounds =
  prevEndTs :: real
  nextStartTs :: real

fun findIndex :: "('a \<Rightarrow> bool) \<Rightarrow> 'a list \<Rightarrow> nat option" where
  "findIndex P [] = None"
| "findIndex P (x # xs) = (if P x then Some 0 else map_option Suc (findIndex P xs))"

definition getSegmentNeighborBounds :: "ZoomSegment list \<Rightarrow> string \<Rightarrow> real \<Rightarrow> NeighborBounds" where
  "getSegmentNeighborBounds segments segmentId timelineDurationMs =
     (let sorted = sort_key startTs segments
      in case findIndex (\<lambda>segment. seg_id segment = segmentId) sorted of
           None \<Rightarrow> \<lparr>prevEndTs = 0, nextStartTs = max 0 timelineDurationMs\<rparr>
         | Some index \<Rightarrow>
             \<lparr>prevEndTs = (if index > 0 then endTs (sorted ! (index - 1)) else 0),
              nextStartTs = (if index + 1 < length sorted then startTs (sorted ! (index + 1))
                             else max 0 timelineDurationMs)\<rparr>)"

datatype SegmentDragMode = DragMove | DragStart | DragEnd

record SegmentDragState =
  segmentId :: string
  dragMode :: SegmentDragMode
  pointerStartX :: real
  initialStartTs :: real
  initialEndTs :: real

text \<open>The callback that \<^verbatim>\<open>onPointerMove\<close> maps over the segments.\<close>

definition dragSegment ::
  "SegmentDragState \<Rightarrow> real \<Rightarrow> real \<Rightarrow> NeighborBounds \<Rightarrow> ZoomSegment \<Rightarrow> ZoomSegment" where
  "dragSegment drag deltaTimelineMs timelineDurationMs neighbors segment =
     (if seg_id segment \<noteq> segmentId drag then segment
      else if dragMode drag = DragMove then
        (let len = initialEndTs drag - initialStartTs drag;
             rawStartTs = initialStartTs drag + deltaTimelineMs;
             minStartTs = max 0 (prevEndTs neighbors + MIN_SEGMENT_GAP_MS);
             maxStartTs = min (max 0 (timelineDurationMs - len))
                              (max minStartTs (nextStartTs neighbors - MIN_SEGMENT_GAP_MS - len))
         in if maxStartTs < minStartTs then segment\<lparr>isAuto := False\<rparr>
            else (let startTs' = clamp rawStartTs minStartTs maxStartTs
                  in segment\<lparr>startTs := startTs', endTs := startTs' + len, isAuto := False\<rparr>))
      else if dragMode drag = DragStart then
        (let rawStartTs = initialStartTs drag + deltaTimelineMs;
             minStartTs = max 0 (prevEndTs neighbors + MIN_SEGMENT_GAP_MS);
             hardMaxStartTs = initialEndTs drag - 1;
             preferredMaxStartTs = initialEndTs drag - MIN_SEGMENT_MS;
             maxStartTs = max minStartTs (min hardMaxStartTs preferredMaxStartTs)
         in segment\<lparr>startTs := clamp rawStartTs minStartTs maxStartTs, isAuto := False\<rparr>)
      else
        (let rawEndTs = initialEndTs drag + deltaTimelineMs;
             hardMinEndTs = initialStartTs drag + 1;
             preferredMinEndTs = initialStartTs drag + MIN_SEGMENT_MS;
             maxEndTs = min timelineDurationMs (nextStartTs neighbors - MIN_SEGMENT_GAP_MS);
             minEndTs = min (max hardMinEndTs preferredMinEndTs) (max hardMinEndTs maxEndTs)
         in segment\<lparr>endTs := clamp rawEndTs minEndTs (max minEndTs maxEndTs), isAuto := False\<rparr>))"

text \<open>
  \<^verbatim>\<open>onPointerMove\<close> with its state update: the drag state (or none), the pointer position,
  the timeline scale and durations, and the current project (or none), of which only the zoom
  segments change. The result is the new list of zoom segments; \<open>None\<close> stands for no project.
\<close>

definition onPointerMove ::
  "SegmentDragState option \<Rightarrow> real \<Rightarrow> real \<Rightarrow> real \<Rightarrow> real \<Rightarrow> ZoomSegment list option
     \<Rightarrow> ZoomSegment list option" where
  "onPointerMove dragState clientX pxPerPreviewMs timelineDurationMs previewDurationMs current =
     (case dragState of
        None \<Rightarrow> current
      | Some drag \<Rightarrow>
          if timelineDurationMs \<le> 0 \<or> previewDurationMs \<le> 0 then current
          else (let deltaPx = clientX - pointerStartX drag;
                    deltaPreviewMs = deltaPx / max pxPerPreviewMs 0.0001;
                    deltaTimelineMs = of_int (round ((deltaPreviewMs * timelineDurationMs) / previewDurationMs))
                in case current of
                     None \<Rightarrow> None
                   | Some zoomSegments \<Rightarrow>
                       (let neighbors = getSegmentNeighborBounds zoomSegments (segmentId drag) timelineDurationMs;
                            nextSegments = map (dragSegment drag deltaTimelineMs timelineDurationMs neighbors)
                                               zoomSegments
                        in Some (sortSegments nextSegments))))"

text \<open>The two segments of the drag scenario and the drag of the first one.\<close>

definition dragDemoSegments :: "ZoomSegment list" where
  "dragDemoSegments = [manualSegment ''first'' 1000 3000, manualSegment ''second'' 4000 6000]"

definition dragDemo :: SegmentDragState where
  "dragDemo = \<lparr>segmentId = ''first'', dragMode = DragMove, pointerStartX = 100,
               initialStartTs = 1000, initialEndTs = 3000\<rparr>"

section \<open>QA smoke check\<close>

text \<open>
  The script \<^verbatim>\<open>scripts/qa-smoke.mjs\<close> reads \<^verbatim>\<open>project.json\<close> and \<^verbatim>\<open>events.json\<close> and
  probes the videos with ffmpeg. The model takes what \<^verbatim>\<open>main\<close> reads from them: a numeric
  field is \<open>Some v\<close> when the test the code applies (\<^verbatim>\<open>isFiniteNumber\<close>, or
  \<^verbatim>\<open>Number(...)\<close> followed by a finiteness test) accepts it with value \<open>v\<close> and \<open>None\<close>
  otherwise; a string field is \<open>Some s\<close> when it is a string; an array field is \<open>Some xs\<close>
  when \<^verbatim>\<open>Array.isArray\<close> holds. Of \<^verbatim>\<open>project.id\<close> the script tests the type and the
  truthiness, so this field keeps the kind of its raw value. Messages are modelled by their
  kind.
\<close>

text \<open>What \<^verbatim>\<open>JSON.parse\<close> can put at a key: nothing, \<^verbatim>\<open>null\<close>, a boolean, a number, a
  string, an array or an object; and the truthiness of JavaScript on these values.\<close>

datatype JsonValue =
    JsonAbsent | JsonNull | JsonBool bool | JsonNumber real | JsonString string
  | JsonArray | JsonObject

fun truthy :: "JsonValue \<Rightarrow> bool" where
  "truthy JsonAbsent = False"
| "truthy JsonNull = False"
| "truthy (JsonBool b) = b"
| "truthy (JsonNumber n) = (n \<noteq> 0)"
| "truthy (JsonString s) = (s \<noteq> [])"
| "truthy JsonArray = True"
| "truthy JsonObject = True"

record SmokeEvent =
  se_ts :: "real option"
  se_x :: "real option"
  se_y :: "real option"

record SmokeSegment =
  ss_startTs :: "real option"
  ss_endTs :: "real option"
  ss_targetRect :: "NormalizedRect option"

record ProjectJson =
  pj_schemaVersion :: "real option"
  pj_id :: JsonValue
  pj_durationMs :: "real option"
  pj_videoWidth :: "real option"
  pj_videoHeight :: "real option"
  pj_zoomSegments :: "SmokeSegment list option"

record EventsJson =
  ej_schemaVersion :: "real option"
  ej_recordingId :: "string option"
  ej_events :: "SmokeEvent list option"
  ej_screenWidth :: "real option"
  ej_screenHeight :: "real option"
  ej_scaleFactor :: "real option"

record VideoProbe =
  vp_durationMs :: "real option"
  vp_width :: "real option"
  vp_height :: "real option"
  vp_fps :: "real option"

text \<open>A file is missing, or reading or probing it throws (the script then crashes into its
  catch-all handler), or it yields a value.\<close>

datatype 'a Loaded = Missing | Unreadable | Loaded 'a

record SmokeInput =
  si_project :: ProjectJson
  si_events :: "EventsJson Loaded"
  si_sourceVideo :: "VideoProbe Loaded"
  si_checkExport :: bool
  si_latestExport :: "VideoProbe Loaded"

datatype Issue =
    ProjectSchemaInvalid | ProjectSchemaMismatch | ProjectIdMissing | ProjectDurationInvalid
  | EventsFileNotFound | SourceVideoNotFound
  | EventsSchemaInvalid | EventsSchemaMismatch | RecordingIdMissing | RecordingIdMismatch
  | EventsNotArray | SourceDurationUnparsed | CriticalDurationMismatch
  | NegativeTimestamps | TimelineExceedsDuration
  | ScreenSizeInvalid | CursorBelowTolerance | ScaleFactorInvalid | CursorExceedsBounds
  | ZoomSegmentsNotArray | SegmentTimesNotNumbers nat | SegmentRangeInvalid nat
  | SegmentExceedsDuration nat | TargetRectInvalid nat | TargetRectSizeInvalid nat
  | TargetRectOutOfBounds nat

datatype Warning =
    ResolutionDiffers | ResolutionUnparsed | DurationDrift | NoTelemetryEvents
  | EventOrderNotMonotonic nat | NoPointerEvents | LogicalPixelCoordinates
  | SegmentsOverlap nat | NoExportFound | ExportDurationUnparsed | ExportDurationDiffers

datatype SmokeResult = Crashed | Finished "Issue list" "Warning list"

definition PROJECT_SCHEMA_VERSION :: real where "PROJECT_SCHEMA_VERSION = 1"
definition EVENTS_SCHEMA_VERSION :: real where "EVENTS_SCHEMA_VERSION = 1"

text \<open>\<^verbatim>\<open>s.trim() === ""\<close> on the whitespace of ASCII.\<close>

definition isBlank :: "string \<Rightarrow> bool" where
  "isBlank s = list_all (\<lambda>c. c \<in> set [CHR '' '', CHR 0x09, CHR 0x0A, CHR 0x0B, CHR 0x0C, CHR 0x0D]) s"

definition projectIssues :: "ProjectJson \<Rightarrow> Issue list" where
  "projectIssues project =
     (case pj_schemaVersion project of
        None \<Rightarrow> [ProjectSchemaInvalid]
      | Some v \<Rightarrow> if v \<noteq> PROJECT_SCHEMA_VERSION then [ProjectSchemaMismatch] else [])
     @ (case pj_id project of
          JsonString i \<Rightarrow> if isBlank i then [ProjectIdMissing] else []
        | _ \<Rightarrow> [ProjectIdMissing])
     @ (case pj_durationMs project of
          None \<Rightarrow> [ProjectDurationInvalid]
        | Some d \<Rightarrow> if d \<le> 0 then [ProjectDurationInvalid] else [])"

text \<open>The test \<^verbatim>\<open>project.id && events.recordingId !== project.id\<close> holds for a truthy
  \<^verbatim>\<open>project.id\<close> that is not the very string \<^verbatim>\<open>events.recordingId\<close>; a truthy value that is
  not a string always differs from it.\<close>

definition eventsHeaderIssues :: "ProjectJson \<Rightarrow> EventsJson \<Rightarrow> Issue list" where
  "eventsHeaderIssues project ev =
     (case ej_schemaVersion ev of
        None \<Rightarrow> [EventsSchemaInvalid]
      | Some v \<Rightarrow> if v \<noteq> EVENTS_SCHEMA_VERSION then [EventsSchemaMismatch] else [])
     @ (case ej_recordingId ev of
          None \<Rightarrow> [RecordingIdMissing]
        | Some rid \<Rightarrow>
            if isBlank rid then [RecordingIdMissing]
            else if truthy (pj_id project) \<and> JsonString rid \<noteq> pj_id project
              then [RecordingIdMismatch] else [])
     @ (case ej_events ev of None \<Rightarrow> [EventsNotArray] | Some es \<Rightarrow> [])"

definition probeIssues :: "VideoProbe \<Rightarrow> Issue list" where
  "probeIssues videoProbe = (case vp_durationMs videoProbe of None \<Rightarrow> [SourceDurationUnparsed] | Some d \<Rightarrow> [])"

definition probeWarnings :: "ProjectJson \<Rightarrow> VideoProbe \<Rightarrow> Warning list" where
  "probeWarnings project videoProbe =
     (case (vp_width videoProbe, vp_height videoProbe) of
        (Some w, Some h) \<Rightarrow>
          (case (pj_videoWidth project, pj_videoHeight project) of
             (Some pw, Some ph) \<Rightarrow> if pw \<noteq> w \<or> ph \<noteq> h then [ResolutionDiffers] else []
           | _ \<Rightarrow> [])
      | _ \<Rightarrow> [ResolutionUnparsed])"

definition driftRatio :: "real \<Rightarrow> real \<Rightarrow> real" where
  "driftRatio projectMs probeMs =
     (let delta = \<bar>projectMs - probeMs\<bar>; baseline = max projectMs probeMs
      in if baseline > 0 then delta / baseline else 0)"

definition driftIssues :: "ProjectJson \<Rightarrow> VideoProbe option \<Rightarrow> Issue list" where
  "driftIssues project videoProbe =
     (case (pj_durationMs project, Option.bind videoProbe vp_durationMs) of
        (Some p, Some v) \<Rightarrow> if driftRatio p v > 0.25 then [CriticalDurationMismatch] else []
      | _ \<Rightarrow> [])"

definition driftWarnings :: "ProjectJson \<Rightarrow> VideoProbe option \<Rightarrow> Warning list" where
  "driftWarnings project videoProbe =
     (case (pj_durationMs project, Option.bind videoProbe vp_durationMs) of
        (Some p, Some v) \<Rightarrow>
          if driftRatio p v > 0.25 then [] else if driftRatio p v > 0.08 then [DurationDrift] else []
      | _ \<Rightarrow> [])"

text \<open>The finite timestamps of the events, in file order.\<close>

definition timestampsOf :: "SmokeEvent list \<Rightarrow> real list" where
  "timestampsOf es = List.map_filter se_ts es"

text \<open>The ordering loop: \<^verbatim>\<open>previous\<close> starts at minus infinity (\<open>None\<close>) and the count
  goes up for every timestamp below its predecessor.\<close>

fun disorderCount :: "real option \<Rightarrow> real list \<Rightarrow> nat" where
  "disorderCount previous [] = 0"
| "disorderCount previous (ts # rest) =
     (if (case previous of None \<Rightarrow> False | Some p \<Rightarrow> ts < p) then 1 else 0)
     + disorderCount (Some ts) rest"

definition maxOf :: "real list \<Rightarrow> real" where
  "maxOf xs = fold max (tl xs) (hd xs)"

definition minOf :: "real list \<Rightarrow> real" where
  "minOf xs = fold min (tl xs) (hd xs)"

definition timelineIssues :: "ProjectJson \<Rightarrow> SmokeEvent list \<Rightarrow> Issue list" where
  "timelineIssues project es =
     (let timestamps = timestampsOf es
      in if timestamps = [] then []
         else (let maxTs = maxOf timestamps; minTs = minOf timestamps
               in (if minTs < 0 then [NegativeTimestamps] else [])
                  @ (case pj_durationMs project of
                       Some d \<Rightarrow> if maxTs > d + 1000 then [TimelineExceedsDuration] else []
                     | None \<Rightarrow> [])))"

definition timelineWarnings :: "SmokeEvent list \<Rightarrow> Warning list" where
  "timelineWarnings es =
     (let timestamps = timestampsOf es
      in if timestamps = [] then [NoTelemetryEvents]
         else (let n = disorderCount None timestamps
               in if n > 0 then [EventOrderNotMonotonic n] else []))"

definition coordEventsOf :: "SmokeEvent list \<Rightarrow> (real \<times> real) list" where
  "coordEventsOf es =
     List.map_filter (\<lambda>e. case (se_x e, se_y e) of (Some x, Some y) \<Rightarrow> Some (x, y) | _ \<Rightarrow> None) es"

definition validScale :: "real option \<Rightarrow> bool" where
  "validScale factor = (case factor of Some s \<Rightarrow> s > 0 \<and> s \<le> 4 | None \<Rightarrow> False)"

definition fitsPhysical :: "real \<Rightarrow> real \<Rightarrow> real \<Rightarrow> real \<Rightarrow> bool" where
  "fitsPhysical maxX maxY w h \<longleftrightarrow> maxX \<le> w * 1.05 \<and> maxY \<le> h * 1.05"

definition fitsScaled :: "real option \<Rightarrow> real \<Rightarrow> real \<Rightarrow> real \<Rightarrow> real \<Rightarrow> bool" where
  "fitsScaled factor maxX maxY w h \<longleftrightarrow>
     validScale factor
     \<and> (case factor of Some s \<Rightarrow> s > 1.0 \<and> maxX * s \<le> w * 1.05 \<and> maxY * s \<le> h * 1.05
         | None \<Rightarrow> False)"

definition coordIssues :: "EventsJson \<Rightarrow> SmokeEvent list \<Rightarrow> Issue list" where
  "coordIssues ev es =
     (let coordEvents = coordEventsOf es
      in if coordEvents = [] then []
         else (let xs = map fst coordEvents; ys = map snd coordEvents;
                   minX = minOf xs; maxX = maxOf xs; minY = minOf ys; maxY = maxOf ys
               in case (ej_screenWidth ev, ej_screenHeight ev) of
                    (Some w, Some h) \<Rightarrow>
                      if w \<le> 0 \<or> h \<le> 0 then [ScreenSizeInvalid]
                      else (if minX < - 2 \<or> minY < - 2 then [CursorBelowTolerance] else [])
                           @ (if \<not> validScale (ej_scaleFactor ev) then [ScaleFactorInvalid] else [])
                           @ (if \<not> fitsPhysical maxX maxY w h
                                 \<and> \<not> fitsScaled (ej_scaleFactor ev) maxX maxY w h
                              then [CursorExceedsBounds] else [])
                  | _ \<Rightarrow> [ScreenSizeInvalid]))"

definition coordWarnings :: "EventsJson \<Rightarrow> SmokeEvent list \<Rightarrow> Warning list" where
  "coordWarnings ev es =
     (let coordEvents = coordEventsOf es
      in if coordEvents = [] then [NoPointerEvents]
         else (let xs = map fst coordEvents; ys = map snd coordEvents;
                   maxX = maxOf xs; maxY = maxOf ys
               in case (ej_screenWidth ev, ej_screenHeight ev) of
                    (Some w, Some h) \<Rightarrow>
                      if w \<le> 0 \<or> h \<le> 0 then []
                      else if \<not> fitsPhysical maxX maxY w h
                              \<and> \<not> fitsScaled (ej_scaleFactor ev) maxX maxY w h then []
                      else if \<not> fitsPhysical maxX maxY w h
                              \<and> fitsScaled (ej_scaleFactor ev) maxX maxY w h
                        then [LogicalPixelCoordinates] else []
                  | _ \<Rightarrow> []))"

text \<open>The loop over the zoom segments; \<^verbatim>\<open>previousEnd\<close> starts at minus infinity (\<open>None\<close>).\<close>

fun segmentChecks ::
  "ProjectJson \<Rightarrow> nat \<Rightarrow> real option \<Rightarrow> SmokeSegment list \<Rightarrow> Issue list \<times> Warning list" where
  "segmentChecks project index previousEnd [] = ([], [])"
| "segmentChecks project index previousEnd (segment # rest) =
     (case (ss_startTs segment, ss_endTs segment) of
        (Some s, Some e) \<Rightarrow>
          (let timeIssues =
                 (if s < 0 \<or> e \<le> s then [SegmentRangeInvalid index] else [])
                 @ (case pj_durationMs project of
                      Some d \<Rightarrow> if e > d + 1 then [SegmentExceedsDuration index] else []
                    | None \<Rightarrow> []);
               overlap = (if (case previousEnd of None \<Rightarrow> False | Some p \<Rightarrow> s < p)
                          then [SegmentsOverlap index] else []);
               previousEnd' = (case previousEnd of None \<Rightarrow> e | Some p \<Rightarrow> max p e);
               rectIssues =
                 (case ss_targetRect segment of
                    None \<Rightarrow> [TargetRectInvalid index]
                  | Some r \<Rightarrow>
                      (if rect_width r \<le> 0 \<or> rect_height r \<le> 0 then [TargetRectSizeInvalid index] else [])
                      @ (if rect_x r < 0 \<or> rect_y r < 0 \<or> rect_x r + rect_width r > 1.0001
                            \<or> rect_y r + rect_height r > 1.0001
                         then [TargetRectOutOfBounds index] else []));
               (issues, warnings) = segmentChecks project (index + 1) (Some previousEnd') rest
           in (timeIssues @ rectIssues @ issues, overlap @ warnings))
      | _ \<Rightarrow>
          (let (issues, warnings) = segmentChecks project (index + 1) previousEnd rest
           in (SegmentTimesNotNumbers index # issues, warnings)))"

definition exportWarnings :: "ProjectJson \<Rightarrow> VideoProbe \<Rightarrow> Warning list" where
  "exportWarnings project exportProbe =
     (case vp_durationMs exportProbe of
        None \<Rightarrow> [ExportDurationUnparsed]
      | Some ed \<Rightarrow>
          (case pj_durationMs project of
             Some d \<Rightarrow>
               (let delta = \<bar>ed - d\<bar>; allowed = max 350 (of_int (round (d * 0.08)))
                in if delta > allowed then [ExportDurationDiffers] else [])
           | None \<Rightarrow> []))"

definition loadedOption :: "'a Loaded \<Rightarrow> 'a option" where
  "loadedOption l = (case l of Loaded v \<Rightarrow> Some v | _ \<Rightarrow> None)"

text \<open>\<^verbatim>\<open>main\<close>: the issues and warnings in the order in which the script pushes them
  (informational lines are left out). An exception anywhere ends in the handler around
  \<^verbatim>\<open>main\<close>, which exits with code 1; the model raises it for an unreadable events file and
  for a probe that cannot be run.\<close>

definition qaSmoke :: "SmokeInput \<Rightarrow> SmokeResult" where
  "qaSmoke inp =
     (let project = si_project inp
      in if si_events inp = Unreadable \<or> si_sourceVideo inp = Unreadable
            \<or> (si_checkExport inp \<and> si_latestExport inp = Unreadable)
         then Crashed
         else (let events = loadedOption (si_events inp);
                   videoProbe = loadedOption (si_sourceVideo inp);
                   eventList = Option.bind events ej_events;
                   (segIssues, segWarnings) =
                     (case pj_zoomSegments project of
                        None \<Rightarrow> ([ZoomSegmentsNotArray], [])
                      | Some zs \<Rightarrow> segmentChecks project 0 None zs)
               in Finished
                    (projectIssues project
                     @ (if events = None then [EventsFileNotFound] else [])
                     @ (if videoProbe = None then [SourceVideoNotFound] else [])
                     @ (case events of Some ev \<Rightarrow> eventsHeaderIssues project ev | None \<Rightarrow> [])
                     @ (case videoProbe of Some vp \<Rightarrow> probeIssues vp | None \<Rightarrow> [])
                     @ driftIssues project videoProbe
                     @ (case (events, eventList) of
                          (Some ev, Some es) \<Rightarrow> timelineIssues project es @ coordIssues ev es
                        | _ \<Rightarrow> [])
                     @ segIssues)
                    ((case videoProbe of Some vp \<Rightarrow> probeWarnings project vp | None \<Rightarrow> [])
                     @ driftWarnings project videoProbe
                     @ (case (events, eventList) of
                          (Some ev, Some es) \<Rightarrow> timelineWarnings es @ coordWarnings ev es
                        | _ \<Rightarrow> [])
                     @ segWarnings
                     @ (if si_checkExport inp then
                          (case si_latestExport inp of
                             Loaded ep \<Rightarrow> exportWarnings project ep
                           | _ \<Rightarrow> [NoExportFound])
                        else []))))"

definition exitCode :: "SmokeResult \<Rightarrow> nat" where
  "exitCode res = (case res of Crashed \<Rightarrow> 1 | Finished issues warnings \<Rightarrow> if issues \<noteq> [] then 1 else 0)"

text \<open>The events of a recording put in time order: a stable sort by timestamp, an event
  without a finite timestamp counting as 0. The script has no such step; the properties
  below compare a run with the run on the ordered events.\<close>

definition inTimeOrder :: "SmokeEvent list \<Rightarrow> SmokeEvent list" where
  "inTimeOrder es = sort_key (\<lambda>e. case se_ts e of Some t \<Rightarrow> t | None \<Rightarrow> 0) es"

text \<open>A well-formed recording whose three pointer events are stored out of order.\<close>

definition smokeDemoTelemetry :: "SmokeEvent list" where
  "smokeDemoTelemetry = [\<lparr>se_ts = Some 10, se_x = Some 5, se_y = Some 5\<rparr>,
                         \<lparr>se_ts = Some 5, se_x = Some 6, se_y = Some 6\<rparr>,
                         \<lparr>se_ts = Some 3, se_x = Some 7, se_y = Some 7\<rparr>]"

definition smokeDemoEvents :: EventsJson where
  "smokeDemoEvents =
     \<lparr>ej_schemaVersion = Some 1, ej_recordingId = Some ''rec-1'',
      ej_events = Some smokeDemoTelemetry,
      ej_screenWidth = Some 1920, ej_screenHeight = Some 1080, ej_scaleFactor = Some 1\<rparr>"

definition smokeDemo :: SmokeInput where
  "smokeDemo =
     \<lparr>si_project =
        \<lparr>pj_schemaVersion = Some 1, pj_id = JsonString ''rec-1'', pj_durationMs = Some 1000,
         pj_videoWidth = Some 1920, pj_videoHeight = Some 1080, pj_zoomSegments = Some []\<rparr>,
      si_events = Loaded smokeDemoEvents,
      si_sourceVideo = Loaded
        \<lparr>vp_durationMs = Some 1000, vp_width = Some 1920, vp_height = Some 1080, vp_fps = Some 30\<rparr>,
      si_checkExport = False,
      si_latestExport = Missing\<rparr>"

section \<open>Properties of the spring camera integrator\<close>

text \<open>
  C3. One integration step clamps the time step to the interval from 0.0001 to 0.1 seconds
  and then updates the velocity by the clamped step times the spring acceleration and the
  value by the new velocity times the clamped step.
\<close>

theorem springStep_exact:
  assumes "0 < mass spring" and "0 < stiffness spring" and "0 \<le> damping spring"
  shows "let dt' = min (max dt 0.0001) 0.1;
             v' = step_velocity (springStep current velocity target spring dt);
             x' = step_value (springStep current velocity target spring dt)
         in 0.0001 \<le> dt' \<and> dt' \<le> 0.1
            \<and> v' = velocity + dt' * ((target - current) * stiffness spring - damping spring * velocity) / mass spring
            \<and> x' = current + v' * dt'"
proof -
  have "(0.0001::real) \<le> min (max dt 0.0001) 0.1" and "min (max dt 0.0001) 0.1 \<le> (0.1::real)"
    by simp_all
  then show ?thesis
    by (simp add: springStep_def clamp_def Let_def)
qed

theorem springStep_exact_witness:
  "0 < mass DEFAULT_SPRING \<and> 0 < stiffness DEFAULT_SPRING \<and> 0 \<le> damping DEFAULT_SPRING
   \<and> step_velocity (springStep 1 0 (1/2) DEFAULT_SPRING (17/1000)) = - 1445 / 1000
   \<and> step_value (springStep 1 0 (1/2) DEFAULT_SPRING (17/1000)) = 975435 / 1000000"
  using springStep_exact [of DEFAULT_SPRING "17/1000" 1 0 "1/2"]
  by (simp add: DEFAULT_SPRING_def springStep_def clamp_def Let_def)


subsection \<open>Timestamps of the camera track\<close>

lemma integrateFrame_previousTs [simp]: "previousTs (integrateFrame segs ts st) = ts"
  by (simp add: integrateFrame_def Let_def)

lemma integrateFrame_samples:
  "samples (integrateFrame segs ts st) = samples st @ [\<lparr>ref_ts = ts, ref_rect = length (store st)\<rparr>]"
  by (simp add: integrateFrame_def Let_def)

lemma strict_sorted_le_last:
  fixes xs :: "real list"
  shows "sorted_wrt (<) xs \<Longrightarrow> t \<in> set xs \<Longrightarrow> t \<le> last xs"
  by (induction xs) (auto simp: less_imp_le)

lemma trackOk_frame: "trackOk d (st\<lparr>frame := n\<rparr>) = trackOk d st"
  by (simp add: trackOk_def)

lemma trackOk_integrate:
  assumes "trackOk d st" and "previousTs st < ts" and "ts \<le> d"
  shows "trackOk d (integrateFrame segs ts st)"
proof -
  have ne: "samples st \<noteq> []" and so: "sorted_wrt (<) (map ref_ts (samples st))"
    and la: "ref_ts (last (samples st)) = previousTs st"
    using assms(1) by (simp_all add: trackOk_def)
  have "t < ts" if "t \<in> set (map ref_ts (samples st))" for t
  proof -
    have "t \<le> last (map ref_ts (samples st))"
      using strict_sorted_le_last [OF so that] .
    also have "\<dots> = previousTs st" using ne la by (simp add: last_map)
    finally show ?thesis using assms(2) by simp
  qed
  then have "sorted_wrt (<) (map ref_ts (samples st) @ [ts])"
    using so by (simp add: sorted_wrt_append)
  then show ?thesis
    using assms by (simp add: trackOk_def integrateFrame_samples)
qed

lemma trackLoop_ok:
  "trackOk d st \<Longrightarrow> trackOk d (trackLoop segs d fps st) \<and> previousTs (trackLoop segs d fps st) = d"
proof (induction segs d fps st rule: trackLoop.induct)
  case (1 segs d fps st)
  show ?case
  proof (cases "previousTs st < d")
    case False
    with "1.prems" show ?thesis
      by (subst (1 2) trackLoop.simps) (simp add: trackOk_def)
  next
    case True
    define ts where "ts = min (of_int (round (real (frame st) * stepMs fps))) d"
    define st' where "st' = st\<lparr>frame := frame st + 1\<rparr>"
    have ok': "trackOk d st'" using "1.prems" by (simp add: st'_def trackOk_frame)
    have tsd: "ts \<le> d" by (simp add: ts_def)
    show ?thesis
    proof (cases "ts \<le> previousTs st")
      case c: True
      have eq: "trackLoop segs d fps st = trackLoop segs d fps st'"
        using True c by (subst trackLoop.simps) (simp add: ts_def st'_def Let_def)
      from "1.IH"(1) [OF True ts_def st'_def c ok'] show ?thesis
        by (simp add: eq)
    next
      case c: False
      have eq: "trackLoop segs d fps st = trackLoop segs d fps (integrateFrame segs ts st')"
        using True c by (subst trackLoop.simps) (simp add: ts_def st'_def Let_def)
      have "previousTs st' < ts" using c by (simp add: st'_def)
      from trackOk_integrate [OF ok' this tsd]
      have "trackOk d (integrateFrame segs ts st')" .
      from "1.IH"(2) [OF True ts_def st'_def c this] show ?thesis
        by (simp add: eq)
    qed
  qed
qed

lemma readSamples_ts: "map sample_ts (readSamples s refs) = map ref_ts refs"
  by (simp add: readSamples_def comp_def)

lemma demo_track:
  "buildSpringCameraTrack [demoSegment] 50 60 =
     [\<lparr>sample_ts = 0, sample_rect = \<lparr>rect_x = 0, rect_y = 0, rect_width = 1, rect_height = 1\<rparr>\<rparr>,
      \<lparr>sample_ts = 17, sample_rect = \<lparr>rect_x = 11177 / 20000, rect_y = 11177 / 20000,
          rect_width = - (1177 / 10000), rect_height = - (1177 / 10000)\<rparr>\<rparr>,
      \<lparr>sample_ts = 33, sample_rect = \<lparr>rect_x = 1290047 / 4000000, rect_y = 1290047 / 4000000,
          rect_width = 5607 / 20000, rect_height = 5607 / 20000\<rparr>\<rparr>,
      \<lparr>sample_ts = 50, sample_rect = \<lparr>rect_x = 1290047 / 4000000, rect_y = 1290047 / 4000000,
          rect_width = 5607 / 20000, rect_height = 5607 / 20000\<rparr>\<rparr>]"
  by code_simp

text \<open>
  C4. For every list of runtime segments, every frame rate and every positive duration, the
  camera track is not empty, its sample timestamps increase strictly, the first sample is at
  0 and the last one at the duration.
\<close>

theorem buildSpringCameraTrack_monotonic:
  assumes "0 < durationMs"
  shows "buildSpringCameraTrack segs durationMs fps \<noteq> []
     \<and> sorted_wrt (<) (map sample_ts (buildSpringCameraTrack segs durationMs fps))
     \<and> sample_ts (hd (buildSpringCameraTrack segs durationMs fps)) = 0
     \<and> sample_ts (last (buildSpringCameraTrack segs durationMs fps)) = durationMs"
proof -
  define st where "st = trackLoop segs durationMs fps initialTrackState"
  have "trackOk durationMs initialTrackState"
    using assms by (simp add: trackOk_def initialTrackState_def)
  from trackLoop_ok [OF this, of segs fps]
  have ok: "trackOk durationMs st" and p: "previousTs st = durationMs"
    by (simp_all add: st_def)
  have b: "buildSpringCameraTrack segs durationMs fps = readSamples (store st) (samples st)"
    using assms by (simp add: buildSpringCameraTrack_def st_def Let_def)
  have ne: "samples st \<noteq> []" using ok by (simp add: trackOk_def)
  then have ne': "readSamples (store st) (samples st) \<noteq> []" by (simp add: readSamples_def)
  have "sample_ts (hd (readSamples (store st) (samples st)))
          = hd (map sample_ts (readSamples (store st) (samples st)))"
    using ne' by (simp add: hd_map)
  also have "\<dots> = 0" using ok ne by (simp add: readSamples_ts trackOk_def hd_map)
  finally have h: "sample_ts (hd (readSamples (store st) (samples st))) = 0" .
  have "sample_ts (last (readSamples (store st) (samples st)))
          = last (map sample_ts (readSamples (store st) (samples st)))"
    using ne' by (simp add: last_map)
  also have "\<dots> = durationMs" using ok ne p by (simp add: readSamples_ts trackOk_def last_map)
  finally have l: "sample_ts (last (readSamples (store st) (samples st))) = durationMs" .
  have s: "sorted_wrt (<) (map sample_ts (readSamples (store st) (samples st)))"
    using ok by (simp add: readSamples_ts trackOk_def)
  show ?thesis using ne' h l s by (simp add: b)
qed

theorem buildSpringCameraTrack_monotonic_witness:
  "(0::real) < 50
   \<and> map sample_ts (buildSpringCameraTrack [demoSegment] 50 60) = [0, 17, 33, 50]
   \<and> sorted_wrt (<) (map sample_ts (buildSpringCameraTrack [demoSegment] 50 60))
   \<and> sample_ts (hd (buildSpringCameraTrack [demoSegment] 50 60)) = 0
   \<and> sample_ts (last (buildSpringCameraTrack [demoSegment] 50 60)) = 50"
  using buildSpringCameraTrack_monotonic [of 50 "[demoSegment]" 60] by (simp add: demo_track)

text \<open>
  C10. When the requested duration is not positive, the track consists of the single sample
  at time 0 showing the full frame, whatever the segments are.
\<close>

theorem buildSpringCameraTrack_nonpositive:
  "durationMs \<le> 0 \<Longrightarrow>
   buildSpringCameraTrack runtimeSegments durationMs fps = [\<lparr>sample_ts = 0, sample_rect = FULL_RECT\<rparr>]"
  by (simp add: buildSpringCameraTrack_def readSamples_def)

theorem buildSpringCameraTrack_nonpositive_witness:
  "(- 5::real) \<le> 0
   \<and> buildSpringCameraTrack [demoSegment] (- 5) 60 = [\<lparr>sample_ts = 0, sample_rect = FULL_RECT\<rparr>]"
  using buildSpringCameraTrack_nonpositive [of "- 5" "[demoSegment]" 60] by simp

subsection \<open>Validity of rectangles\<close>

lemma normalizeRect_valid:
  "MIN_RECT_SIZE \<le> rect_width (normalizeRect r) \<and> rect_width (normalizeRect r) \<le> 1
   \<and> MIN_RECT_SIZE \<le> rect_height (normalizeRect r) \<and> rect_height (normalizeRect r) \<le> 1
   \<and> 0 \<le> rect_x (normalizeRect r) \<and> 0 \<le> rect_y (normalizeRect r)
   \<and> rect_x (normalizeRect r) + rect_width (normalizeRect r) \<le> 1
   \<and> rect_y (normalizeRect r) + rect_height (normalizeRect r) \<le> 1"
  by (simp add: normalizeRect_def clamp_def Let_def MIN_RECT_SIZE_def min_def max_def)

text \<open>The sample pushed last is never assigned to again, so the last sample of every track is
  a valid rectangle.\<close>

lemma lastOk_integrate: "lastOk (integrateFrame segs ts st)"
  using normalizeRect_valid
  by (simp add: lastOk_def integrateFrame_def Let_def validRect_def nth_append)

lemma trackLoop_lastOk: "lastOk st \<Longrightarrow> lastOk (trackLoop segs d fps st)"
proof (induction segs d fps st rule: trackLoop.induct)
  case (1 segs d fps st)
  show ?case
  proof (cases "previousTs st < d")
    case False
    with "1.prems" show ?thesis by (subst trackLoop.simps) simp
  next
    case True
    define ts where "ts = min (of_int (round (real (frame st) * stepMs fps))) d"
    define st' where "st' = st\<lparr>frame := frame st + 1\<rparr>"
    have ok': "lastOk st'" using "1.prems" by (simp add: st'_def lastOk_def)
    show ?thesis
    proof (cases "ts \<le> previousTs st")
      case c: True
      have eq: "trackLoop segs d fps st = trackLoop segs d fps st'"
        using True c by (subst trackLoop.simps) (simp add: ts_def st'_def Let_def)
      from "1.IH"(1) [OF True ts_def st'_def c ok'] show ?thesis by (simp add: eq)
    next
      case c: False
      have eq: "trackLoop segs d fps st = trackLoop segs d fps (integrateFrame segs ts st')"
        using True c by (subst trackLoop.simps) (simp add: ts_def st'_def Let_def)
      from "1.IH"(2) [OF True ts_def st'_def c lastOk_integrate] show ?thesis by (simp add: eq)
    qed
  qed
qed

lemma track_last_sample_valid:
  "validRect (sample_rect (last (buildSpringCameraTrack segs durationMs fps)))"
proof (cases "durationMs \<le> 0")
  case True
  then show ?thesis
    by (simp add: buildSpringCameraTrack_def readSamples_def validRect_def FULL_RECT_def MIN_RECT_SIZE_def)
next
  case False
  define st where "st = trackLoop segs durationMs fps initialTrackState"
  have "lastOk initialTrackState"
    by (simp add: lastOk_def initialTrackState_def validRect_def FULL_RECT_def MIN_RECT_SIZE_def)
  from trackLoop_lastOk [OF this] have "lastOk st" by (simp add: st_def)
  then show ?thesis
    using False
    by (simp add: buildSpringCameraTrack_def st_def [symmetric] Let_def readSamples_def lastOk_def last_map)
qed

text \<open>
  C5. Every output of \<^verbatim>\<open>normalizeRect\<close> is a valid rectangle
  (\<open>normalizeRect_valid\<close>), and so is the last sample of a track
  (\<open>track_last_sample_valid\<close>), but the samples of the camera track are not all outputs of
  \<^verbatim>\<open>normalizeRect\<close>: the object pushed for one frame is the object whose fields the next
  frame assigns. For the segment \<open>demoSegment\<close>, a duration of 50 ms and 60 frames per
  second, the sample at 17 ms ends with the width \<open>-0.1177\<close>, below the minimum size.
\<close>

theorem camera_track_sample_not_normalized:
  "sample_ts (buildSpringCameraTrack [demoSegment] 50 60 ! 1) = 17
   \<and> rect_width (sample_rect (buildSpringCameraTrack [demoSegment] 50 60 ! 1)) = - (1177 / 10000)
   \<and> \<not> MIN_RECT_SIZE \<le> rect_width (sample_rect (buildSpringCameraTrack [demoSegment] 50 60 ! 1))"
  by (simp add: demo_track MIN_RECT_SIZE_def)

section \<open>Properties of the cursor pipeline\<close>

subsection \<open>Click pulse\<close>

lemma clickSearch_correct:
  shows "sorted cs \<Longrightarrow> 0 \<le> low \<Longrightarrow> high < int (length cs) \<Longrightarrow> low \<le> high + 1 \<Longrightarrow> nearest = low - 1
    \<Longrightarrow> (\<forall>i < nat low. cs ! i \<le> ts) \<Longrightarrow> (\<forall>i. nat (high + 1) \<le> i \<and> i < length cs \<longrightarrow> ts < cs ! i)
    \<Longrightarrow> - 1 \<le> clickSearch cs ts low high nearest \<and> clickSearch cs ts low high nearest < int (length cs)
        \<and> (\<forall>i < nat (clickSearch cs ts low high nearest + 1). cs ! i \<le> ts)
        \<and> (\<forall>i. nat (clickSearch cs ts low high nearest + 1) \<le> i \<and> i < length cs \<longrightarrow> ts < cs ! i)"
proof (induction cs ts low high nearest rule: clickSearch.induct)
  case (1 cs ts low high nearest)
  show ?case
  proof (cases "low \<le> high")
    case False
    then have "clickSearch cs ts low high nearest = nearest" by (subst clickSearch.simps) simp
    moreover have "high = low - 1" using False "1.prems" by simp
    ultimately show ?thesis using "1.prems" by simp
  next
    case True
    define mid where "mid = (low + high) div 2"
    have m: "low \<le> mid" "mid \<le> high" using True by (simp_all add: mid_def)
    have mlen: "nat mid < length cs" using m "1.prems" by linarith
    show ?thesis
    proof (cases "cs ! nat mid \<le> ts")
      case c: True
      have eq: "clickSearch cs ts low high nearest = clickSearch cs ts (mid + 1) high mid"
        using True c by (subst clickSearch.simps) (simp add: mid_def Let_def)
      have le: "\<forall>i < nat (mid + 1). cs ! i \<le> ts"
      proof (intro allI impI)
        fix i assume "i < nat (mid + 1)"
        then have "i \<le> nat mid" using m "1.prems"(2) by linarith
        from sorted_nth_mono [OF "1.prems"(1) this mlen] have "cs ! i \<le> cs ! nat mid" .
        then show "cs ! i \<le> ts" using c by simp
      qed
      have "- 1 \<le> clickSearch cs ts (mid + 1) high mid \<and> clickSearch cs ts (mid + 1) high mid < int (length cs)
        \<and> (\<forall>i < nat (clickSearch cs ts (mid + 1) high mid + 1). cs ! i \<le> ts)
        \<and> (\<forall>i. nat (clickSearch cs ts (mid + 1) high mid + 1) \<le> i \<and> i < length cs \<longrightarrow> ts < cs ! i)"
        by (rule "1.IH"(1) [OF True mid_def refl c "1.prems"(1)])
           (use m "1.prems" le in simp_all)
      then show ?thesis by (simp add: eq)
    next
      case c: False
      have eq: "clickSearch cs ts low high nearest = clickSearch cs ts low (mid - 1) nearest"
        using True c by (subst clickSearch.simps) (simp add: mid_def Let_def)
      have gt: "\<forall>i. nat (mid - 1 + 1) \<le> i \<and> i < length cs \<longrightarrow> ts < cs ! i"
      proof (intro allI impI)
        fix i assume "nat (mid - 1 + 1) \<le> i \<and> i < length cs"
        then have "nat mid \<le> i" "i < length cs" by simp_all
        from sorted_nth_mono [OF "1.prems"(1) this] have "cs ! nat mid \<le> cs ! i" .
        then show "ts < cs ! i" using c by simp
      qed
      have "- 1 \<le> clickSearch cs ts low (mid - 1) nearest \<and> clickSearch cs ts low (mid - 1) nearest < int (length cs)
        \<and> (\<forall>i < nat (clickSearch cs ts low (mid - 1) nearest + 1). cs ! i \<le> ts)
        \<and> (\<forall>i. nat (clickSearch cs ts low (mid - 1) nearest + 1) \<le> i \<and> i < length cs \<longrightarrow> ts < cs ! i)"
        by (rule "1.IH"(2) [OF True mid_def refl c "1.prems"(1)])
           (use m "1.prems" gt in simp_all)
      then show ?thesis by (simp add: eq)
    qed
  qed
qed

lemma clickSearch_latest:
  assumes "sorted cs" and "tc \<in> set cs" and "tc \<le> ts" and "\<forall>c \<in> set cs. c \<le> ts \<longrightarrow> c \<le> tc"
  shows "0 \<le> clickSearch cs ts 0 (int (length cs) - 1) (- 1)
         \<and> cs ! nat (clickSearch cs ts 0 (int (length cs) - 1) (- 1)) = tc"
proof -
  define r where "r = clickSearch cs ts 0 (int (length cs) - 1) (- 1)"
  have "- 1 \<le> r \<and> r < int (length cs) \<and> (\<forall>i < nat (r + 1). cs ! i \<le> ts)
        \<and> (\<forall>i. nat (r + 1) \<le> i \<and> i < length cs \<longrightarrow> ts < cs ! i)"
    unfolding r_def by (rule clickSearch_correct) (use assms(1) in simp_all)
  then have r: "- 1 \<le> r" "r < int (length cs)" and le: "\<And>i. i < nat (r + 1) \<Longrightarrow> cs ! i \<le> ts"
    and gt: "\<And>i. nat (r + 1) \<le> i \<Longrightarrow> i < length cs \<Longrightarrow> ts < cs ! i"
    by auto
  from assms(2) obtain j where j: "j < length cs" "cs ! j = tc"
    by (auto simp: in_set_conv_nth)
  have jr: "j < nat (r + 1)"
  proof (rule ccontr)
    assume "\<not> j < nat (r + 1)"
    then have "ts < cs ! j" using gt j(1) by simp
    then show False using j(2) assms(3) by simp
  qed
  then have r0: "0 \<le> r" by linarith
  have rl: "nat r < length cs" using r r0 by linarith
  have "cs ! nat r \<le> ts" using le [of "nat r"] r0 by simp
  moreover have "cs ! nat r \<in> set cs" using rl by simp
  ultimately have a: "cs ! nat r \<le> tc" using assms(4) by blast
  have "j \<le> nat r" using jr r0 by linarith
  from sorted_nth_mono [OF assms(1) this rl] have "tc \<le> cs ! nat r" using j(2) by simp
  with a r0 show ?thesis by (simp add: r_def)
qed

lemma pulse_formula:
  assumes "sorted cs" and "tc \<in> set cs" and "tc \<le> ts" and "\<forall>c \<in> set cs. c \<le> ts \<longrightarrow> c \<le> tc"
  shows "sampleClickPulseScale cs ts =
           (if ts - tc > 150 then 1
            else if ts - tc \<le> 65 then 1 - (1 - 0.82) * ((ts - tc) / 65)
            else 0.82 + (1 - 0.82) * ((ts - tc - 65) / 85))"
proof -
  have ne: "cs \<noteq> []" using assms(2) by auto
  from clickSearch_latest [OF assms]
  have "0 \<le> clickSearch cs ts 0 (int (length cs) - 1) (- 1)"
    and "cs ! nat (clickSearch cs ts 0 (int (length cs) - 1) (- 1)) = tc" by simp_all
  then show ?thesis
    using ne assms(3)
    by (simp add: sampleClickPulseScale_def Let_def CLICK_PULSE_TOTAL_MS_def CLICK_PULSE_DOWN_MS_def
        CLICK_PULSE_MIN_SCALE_def)
qed

lemma pulse_before_first_click:
  assumes "sorted cs" and "\<forall>c \<in> set cs. ts < c"
  shows "sampleClickPulseScale cs ts = 1"
proof (cases "cs = []")
  case True
  then show ?thesis by (simp add: sampleClickPulseScale_def)
next
  case False
  define r where "r = clickSearch cs ts 0 (int (length cs) - 1) (- 1)"
  have "- 1 \<le> r \<and> r < int (length cs) \<and> (\<forall>i < nat (r + 1). cs ! i \<le> ts)
        \<and> (\<forall>i. nat (r + 1) \<le> i \<and> i < length cs \<longrightarrow> ts < cs ! i)"
    unfolding r_def by (rule clickSearch_correct) (use assms(1) in simp_all)
  then have r: "r < int (length cs)" and le: "\<And>i. i < nat (r + 1) \<Longrightarrow> cs ! i \<le> ts"
    by auto
  have "r < 0"
  proof (rule ccontr)
    assume "\<not> r < 0"
    then have "cs ! nat r \<le> ts" "nat r < length cs" using le [of "nat r"] r by simp_all
    then show False using assms(2) by (metis nth_mem not_less)
  qed
  then show ?thesis using False by (simp add: sampleClickPulseScale_def Let_def r_def)
qed

lemma pulseProfile_eq:
  assumes "tc \<le> u"
  shows "(if u - tc > 150 then 1
            else if u - tc \<le> 65 then 1 - (1 - 0.82) * ((u - tc) / 65)
            else 0.82 + (1 - 0.82) * ((u - tc - 65) / 85)) = pulseProfile tc u"
  using assms by (simp add: pulseProfile_def min_def max_def) argo

lemma pulseProfile_cont: "isCont (pulseProfile tc) u"
  unfolding pulseProfile_def by (intro continuous_intros) simp_all

lemma pulse_continuous_off_clicks:
  assumes "sorted cs" and "ts \<notin> set cs"
  shows "isCont (sampleClickPulseScale cs) ts"
proof (cases "\<exists>c \<in> set cs. c \<le> ts")
  case False
  then have all: "\<forall>c \<in> set cs. ts < c" by auto
  have "eventually (\<lambda>u. \<forall>c \<in> set cs. u < c) (at ts)"
  proof (rule eventually_ball_finite)
    show "finite (set cs)" by simp
    show "\<forall>c \<in> set cs. eventually (\<lambda>u. u < c) (at ts)"
      using all order_tendstoD(2) [OF tendsto_ident_at] by blast
  qed
  then have ev: "eventually (\<lambda>u. sampleClickPulseScale cs u = 1) (at ts)"
    by (rule eventually_mono) (simp add: pulse_before_first_click [OF assms(1)])
  have "sampleClickPulseScale cs ts = 1"
    using all by (simp add: pulse_before_first_click [OF assms(1)])
  moreover have "((\<lambda>u. 1::real) \<longlongrightarrow> 1) (at ts)" by simp
  ultimately show ?thesis
    unfolding isCont_def using tendsto_cong [OF ev] by simp
next
  case True
  define tc where "tc = Max {c \<in> set cs. c \<le> ts}"
  have fin: "finite {c \<in> set cs. c \<le> ts}" and ne: "{c \<in> set cs. c \<le> ts} \<noteq> {}"
    using True by auto
  have tcin: "tc \<in> {c \<in> set cs. c \<le> ts}" unfolding tc_def by (rule Max_in [OF fin ne])
  then have tcs: "tc \<in> set cs" and tcle: "tc \<le> ts" by simp_all
  have tclt: "tc < ts" using tcs tcle assms(2) by (cases "tc = ts") auto
  have latest: "c \<le> tc" if "c \<in> set cs" "c \<le> ts" for c
    unfolding tc_def using that fin by (simp add: Max_ge)
  have e1: "eventually (\<lambda>u. tc < u) (at ts)"
    using order_tendstoD(1) [OF tendsto_ident_at tclt] .
  have e2: "eventually (\<lambda>u. \<forall>c \<in> set cs. ts < c \<longrightarrow> u < c) (at ts)"
  proof (rule eventually_ball_finite)
    show "finite (set cs)" by simp
    show "\<forall>c \<in> set cs. eventually (\<lambda>u. ts < c \<longrightarrow> u < c) (at ts)"
    proof
      fix c assume "c \<in> set cs"
      show "eventually (\<lambda>u. ts < c \<longrightarrow> u < c) (at ts)"
      proof (cases "ts < c")
        case True
        from order_tendstoD(2) [OF tendsto_ident_at this]
        have "eventually (\<lambda>u. u < c) (at ts)" .
        then show ?thesis by (rule eventually_mono) simp
      next
        case False
        then show ?thesis by simp
      qed
    qed
  qed
  have ev: "eventually (\<lambda>u. sampleClickPulseScale cs u = pulseProfile tc u) (at ts)"
    using e1 e2
  proof eventually_elim
    case (elim u)
    have "\<forall>c \<in> set cs. c \<le> u \<longrightarrow> c \<le> tc"
    proof (intro ballI impI)
      fix c assume c: "c \<in> set cs" "c \<le> u"
      then have "\<not> ts < c" using elim(2) by auto
      then show "c \<le> tc" using latest c(1) by simp
    qed
    from pulse_formula [OF assms(1) tcs _ this] elim(1)
    show ?case by (simp add: pulseProfile_eq)
  qed
  have "\<forall>c \<in> set cs. c \<le> ts \<longrightarrow> c \<le> tc" using latest by blast
  from pulse_formula [OF assms(1) tcs tcle this]
  have here: "sampleClickPulseScale cs ts = pulseProfile tc ts"
    using tcle by (simp add: pulseProfile_eq)
  have "(pulseProfile tc \<longlongrightarrow> pulseProfile tc ts) (at ts)"
    using pulseProfile_cont by (simp add: isCont_def)
  then show ?thesis
    unfolding isCont_def here using tendsto_cong [OF ev] by simp
qed


text \<open>
  C1 as the specification states it: the scale at the click time itself would be 0.82.
  The code returns 1 there: the pulse starts at full size.
\<close>

theorem click_pulse_at_click_counterexample:
  "sampleClickPulseScale [1000] 1000 = 1 \<and> sampleClickPulseScale [1000] 1000 \<noteq> 0.82"
  by code_simp

text \<open>
  C1, amended. For a sorted list of click timestamps: whenever \<open>tc\<close> is the latest click at
  or before \<open>ts\<close>, the scale is 1 for \<open>ts - tc > 150\<close>, \<open>1 - (1 - 0.82) * ((ts - tc) / 65)\<close>
  for \<open>ts - tc \<le> 65\<close> and \<open>0.82 + (1 - 0.82) * ((ts - tc - 65) / 85)\<close> otherwise. Hence the
  scale is 1 at every click time, 0.82 at 65 ms and 1 at 150 ms after a click that is still the
  latest one, and the signal is continuous at every time that is not a click timestamp.
\<close>

theorem click_pulse_scale:
  assumes "sorted cs"
  shows "(\<forall>tc ts. tc \<in> set cs \<and> tc \<le> ts \<and> (\<forall>c \<in> set cs. c \<le> ts \<longrightarrow> c \<le> tc) \<longrightarrow>
            sampleClickPulseScale cs ts =
              (if ts - tc > 150 then 1
               else if ts - tc \<le> 65 then 1 - (1 - 0.82) * ((ts - tc) / 65)
               else 0.82 + (1 - 0.82) * ((ts - tc - 65) / 85)))
       \<and> (\<forall>tc \<in> set cs. sampleClickPulseScale cs tc = 1)
       \<and> (\<forall>tc \<in> set cs. (\<forall>c \<in> set cs. c \<le> tc + 65 \<longrightarrow> c \<le> tc) \<longrightarrow>
            sampleClickPulseScale cs (tc + 65) = 0.82)
       \<and> (\<forall>tc \<in> set cs. (\<forall>c \<in> set cs. c \<le> tc + 150 \<longrightarrow> c \<le> tc) \<longrightarrow>
            sampleClickPulseScale cs (tc + 150) = 1)
       \<and> (\<forall>ts. ts \<notin> set cs \<longrightarrow> isCont (sampleClickPulseScale cs) ts)"
proof (intro conjI allI ballI impI)
  fix tc ts
  assume "tc \<in> set cs \<and> tc \<le> ts \<and> (\<forall>c \<in> set cs. c \<le> ts \<longrightarrow> c \<le> tc)"
  then show "sampleClickPulseScale cs ts =
              (if ts - tc > 150 then 1
               else if ts - tc \<le> 65 then 1 - (1 - 0.82) * ((ts - tc) / 65)
               else 0.82 + (1 - 0.82) * ((ts - tc - 65) / 85))"
    using pulse_formula [OF assms, of tc ts] by blast
next
  fix tc assume "tc \<in> set cs"
  from pulse_formula [OF assms this, of tc] show "sampleClickPulseScale cs tc = 1" by simp
next
  fix tc assume "tc \<in> set cs" and "\<forall>c \<in> set cs. c \<le> tc + 65 \<longrightarrow> c \<le> tc"
  from pulse_formula [OF assms this(1) _ this(2)]
  show "sampleClickPulseScale cs (tc + 65) = 0.82" by simp
next
  fix tc assume "tc \<in> set cs" and "\<forall>c \<in> set cs. c \<le> tc + 150 \<longrightarrow> c \<le> tc"
  from pulse_formula [OF assms this(1) _ this(2)]
  show "sampleClickPulseScale cs (tc + 150) = 1" by simp
next
  fix ts assume "ts \<notin> set cs"
  then show "isCont (sampleClickPulseScale cs) ts"
    by (rule pulse_continuous_off_clicks [OF assms])
qed

theorem click_pulse_scale_witness:
  "sorted [1000, 5000 :: real]
   \<and> sampleClickPulseScale [1000, 5000] 1000 = 1
   \<and> sampleClickPulseScale [1000, 5000] 1065 = 0.82
   \<and> sampleClickPulseScale [1000, 5000] 1150 = 1
   \<and> isCont (sampleClickPulseScale [1000, 5000]) 1100"
proof -
  have s: "sorted [1000, 5000 :: real]" by simp
  note t = click_pulse_scale [OF s]
  have a: "sampleClickPulseScale [1000, 5000] 1000 = 1"
    using t by simp
  have b: "sampleClickPulseScale [1000, 5000] (1000 + 65) = 0.82"
    using t by simp
  have c: "sampleClickPulseScale [1000, 5000] (1000 + 150) = 1"
    using t by simp
  have d: "isCont (sampleClickPulseScale [1000, 5000]) 1100"
    using t by simp
  show ?thesis using s a b c d by simp
qed

subsection \<open>Rounding to a double\<close>

lemma roundHalfEven_error: "\<bar>of_int (roundHalfEven v) - v\<bar> \<le> 1/2"
proof -
  have "of_int \<lfloor>v\<rfloor> \<le> v" "v < of_int \<lfloor>v\<rfloor> + 1" by linarith+
  then show ?thesis unfolding roundHalfEven_def Let_def by (auto simp: abs_le_iff)
qed

lemma spacingDown_spec:
  "- 1074 \<le> e \<Longrightarrow> q = 2 powi e \<Longrightarrow>
     \<exists>e'. - 1074 \<le> e' \<and> spacingDown a q e = 2 powi e' \<and> (e' = - 1074 \<or> 2 powi e' * 2 ^ 52 \<le> a)"
proof (induction a q e rule: spacingDown.induct)
  case (1 a q e)
  show ?case
  proof (cases "e \<le> - 1074 \<or> q * 4503599627370496 \<le> a")
    case True
    then have r: "spacingDown a q e = q" by (subst spacingDown.simps) simp
    from True have "e = - 1074 \<or> q * 2 ^ 52 \<le> a" using "1.prems"(1) by auto
    then show ?thesis using r "1.prems" by (intro exI [of _ e]) auto
  next
    case False
    then have r: "spacingDown a q e = spacingDown a (q / 2) (e - 1)" by (subst spacingDown.simps) simp
    have e: "- 1074 \<le> e - 1" using False by simp
    have q: "q / 2 = 2 powi (e - 1)" using "1.prems"(2) by (simp add: power_int_diff)
    from "1.IH" [OF False e q] show ?thesis unfolding r .
  qed
qed

lemma spacingUp_spec:
  "q = 2 powi e \<Longrightarrow> e = - 1074 \<or> q * 2 ^ 52 \<le> a \<Longrightarrow>
     \<exists>e'. e \<le> e' \<and> spacingUp a q = 2 powi e' \<and> a < 2 powi e' * 2 ^ 53
          \<and> (e' = - 1074 \<or> 2 powi e' * 2 ^ 52 \<le> a)"
proof (induction a q arbitrary: e rule: spacingUp.induct)
  case (1 a q)
  have qpos: "0 < q" using "1.prems"(1) by simp
  show ?case
  proof (cases "a < q * 9007199254740992")
    case True
    then have r: "spacingUp a q = q" by (subst spacingUp.simps) simp
    show ?thesis using r True "1.prems" by (intro exI [of _ e]) auto
  next
    case False
    then have c: "\<not> (q \<le> 0 \<or> a < q * 9007199254740992)" using qpos by simp
    then have r: "spacingUp a q = spacingUp a (2 * q)" by (subst spacingUp.simps) simp
    have q: "2 * q = 2 powi (e + 1)" using "1.prems"(1) by (simp add: power_int_add)
    have "2 * q * 2 ^ 52 \<le> a" using False by simp
    then have "e + 1 = - 1074 \<or> 2 * q * 2 ^ 52 \<le> a" by simp
    from "1.IH" [OF c q this] obtain e' where
      "e + 1 \<le> e'" "spacingUp a (2 * q) = 2 powi e'" "a < 2 powi e' * 2 ^ 53"
      "e' = - 1074 \<or> 2 powi e' * 2 ^ 52 \<le> a" by blast
    then show ?thesis unfolding r by (intro exI [of _ e']) auto
  qed
qed

text \<open>The characterisation of the spacing of the doubles around \<open>a\<close>.\<close>

lemma spacing_spec:
  "\<exists>e. - 1074 \<le> e \<and> spacing a = 2 powi e \<and> a < 2 powi e * 2 ^ 53
       \<and> (e = - 1074 \<or> 2 powi e * 2 ^ 52 \<le> a)"
proof -
  have "(1::real) / 4503599627370496 = 2 powi (- 52)" by (simp add: power_int_minus)
  from spacingDown_spec [OF _ this, of a] obtain e1 where
    e1: "- 1074 \<le> e1" "spacingDown a (1 / 4503599627370496) (- 52) = 2 powi e1"
        "e1 = - 1074 \<or> 2 powi e1 * 2 ^ 52 \<le> a" by auto
  from spacingUp_spec [OF e1(2) _, of a] e1(3) obtain e2 where
    "e1 \<le> e2" "spacingUp a (spacingDown a (1 / 4503599627370496) (- 52)) = 2 powi e2"
    "a < 2 powi e2 * 2 ^ 53" "e2 = - 1074 \<or> 2 powi e2 * 2 ^ 52 \<le> a"
    unfolding e1(2) by blast
  then show ?thesis using e1(1) unfolding spacing_def by (intro exI [of _ e2]) auto
qed

lemma fl_error: "\<bar>fl v - v\<bar> \<le> max (2 powi (- 1075)) (\<bar>v\<bar> / 2 ^ 53)"
proof (cases "v = 0")
  case True
  then show ?thesis by (simp add: fl_def)
next
  case False
  obtain e where e: "spacing \<bar>v\<bar> = 2 powi e" "e = - 1074 \<or> 2 powi e * 2 ^ 52 \<le> \<bar>v\<bar>"
    using spacing_spec [of "\<bar>v\<bar>"] by blast
  define q where "q = spacing \<bar>v\<bar>"
  have qpos: "0 < q" by (simp add: q_def e(1))
  have "fl v - v = (of_int (roundHalfEven (v / q)) - v / q) * q"
    using False qpos by (simp add: fl_def q_def [symmetric] Let_def algebra_simps)
  then have "\<bar>fl v - v\<bar> = \<bar>of_int (roundHalfEven (v / q)) - v / q\<bar> * q"
    using qpos by (simp add: abs_mult)
  also have "\<dots> \<le> 1/2 * q"
    using roundHalfEven_error [of "v / q"] qpos by (intro mult_right_mono) simp_all
  finally have b: "\<bar>fl v - v\<bar> \<le> q / 2" by simp
  from e(2) show ?thesis
  proof
    assume "e = - 1074"
    then have "q = 2 powi (- 1074)" by (simp only: q_def e(1))
    moreover have "(2::real) powi (- 1074 - 1) = 2 powi (- 1074) / 2 powi 1"
      by (rule power_int_diff) simp
    moreover have "(- 1074 - 1 :: int) = - 1075" by simp
    moreover have "(2::real) powi 1 = 2" by simp
    ultimately have "q / 2 = 2 powi (- 1075)" by (simp only:)
    with b have "\<bar>fl v - v\<bar> \<le> 2 powi (- 1075)" by (simp only:)
    then show ?thesis by (rule max.coboundedI1)
  next
    assume "2 powi e * 2 ^ 52 \<le> \<bar>v\<bar>"
    then have "q * 2 ^ 52 \<le> \<bar>v\<bar>" by (simp add: q_def e(1))
    then have "q / 2 \<le> \<bar>v\<bar> / 2 ^ 53" by (simp add: field_simps)
    with b have "\<bar>fl v - v\<bar> \<le> \<bar>v\<bar> / 2 ^ 53" by (rule order_trans)
    then show ?thesis by (rule max.coboundedI2)
  qed
qed

lemma fl_close: "\<bar>v\<bar> \<le> b \<Longrightarrow> 1 \<le> b \<Longrightarrow> \<bar>fl v - v\<bar> \<le> b / 2 ^ 53"
proof -
  assume v: "\<bar>v\<bar> \<le> b" and b: "1 \<le> b"
  have "(2::real) powi (- 1075) \<le> 2 powi (- 53)"
    by (rule power_int_increasing) simp_all
  also have "(2::real) powi (- 53) = 1 / 2 ^ 53"
    by (simp add: power_int_minus field_simps)
  also have "\<dots> \<le> b / 2 ^ 53" using b by (simp add: divide_right_mono)
  finally have "2 powi (- 1075) \<le> b / 2 ^ 53" .
  moreover have "\<bar>v\<bar> / 2 ^ 53 \<le> b / 2 ^ 53" using v by (simp add: divide_right_mono)
  ultimately have "max (2 powi (- 1075)) (\<bar>v\<bar> / 2 ^ 53) \<le> b / 2 ^ 53" by (rule max.boundedI)
  with fl_error [of v] show ?thesis by (rule order_trans)
qed


text \<open>The rounding on some values: the doubles nearest to 1/10 and 1/3, and two ties above
  \<open>2^53\<close>, where the doubles are the even integers.\<close>

lemma fl_examples:
  "fl 0 = 0"
  "fl 1 = 1"
  "fl (1 / 10) = 3602879701896397 / 36028797018963968"
  "fl (- (9 / 10)) = - (8106479329266893 / 9007199254740992)"
  "fl (9007199254740993) = 9007199254740992"
  "fl (9007199254740995) = 9007199254740996"
  "fl (1 / 3) = 6004799503160661 / 18014398509481984"
  by code_simp+

subsection \<open>Cursor smoothing\<close>

lemma smoothLoop_length [simp]: "length (smoothLoop a sx sy xs) = length xs"
  by (induction xs arbitrary: sx sy) (simp_all add: Let_def)

lemma smoothLoop_ts: "i < length xs \<Longrightarrow> cs_ts (smoothLoop a sx sy xs ! i) = cs_ts (xs ! i)"
  by (induction xs arbitrary: sx sy i) (auto simp: Let_def nth_Cons split: nat.splits)

lemma smoothLoop_x:
  "i < length xs \<Longrightarrow>
   cs_x (smoothLoop a sx sy xs ! i) =
     (let prev = (if i = 0 then sx else cs_x (smoothLoop a sx sy xs ! (i - 1)))
      in fl (prev + fl (a * fl (cs_x (xs ! i) - prev))))"
proof (induction xs arbitrary: sx sy i)
  case Nil
  then show ?case by simp
next
  case (Cons s rest)
  show ?case
  proof (cases i)
    case 0
    then show ?thesis by (simp add: Let_def)
  next
    case (Suc j)
    then have "j < length rest" using Cons.prems by simp
    from Cons.IH [OF this] show ?thesis
      using Suc by (cases j) (simp_all add: Let_def)
  qed
qed

lemma smoothLoop_y:
  "i < length xs \<Longrightarrow>
   cs_y (smoothLoop a sx sy xs ! i) =
     (let prev = (if i = 0 then sy else cs_y (smoothLoop a sx sy xs ! (i - 1)))
      in fl (prev + fl (a * fl (cs_y (xs ! i) - prev))))"
proof (induction xs arbitrary: sx sy i)
  case Nil
  then show ?case by simp
next
  case (Cons s rest)
  show ?case
  proof (cases i)
    case 0
    then show ?thesis by (simp add: Let_def)
  next
    case (Suc j)
    then have "j < length rest" using Cons.prems by simp
    from Cons.IH [OF this] show ?thesis
      using Suc by (cases j) (simp_all add: Let_def)
  qed
qed

lemma fl_nine_tenths: "fl (9/10) = 8106479329266893 / 9007199254740992"
  by code_simp

lemma smoothingAlpha_zero: "smoothingAlpha 0 = 1"
  by code_simp

lemma smoothingAlpha_one: "smoothingAlpha 1 = 900719925474099 / 9007199254740992"
  by code_simp

lemma smoothingAlpha_eq:
  "0 \<le> sf \<Longrightarrow> sf \<le> 1 \<Longrightarrow> smoothingAlpha sf = fl (1 - fl (sf * fl (9/10)))"
  by (simp add: smoothingAlpha_def clamp_def Let_def)

text \<open>The computed \<open>alpha\<close> is within three units of \<open>2^-53\<close> of \<open>1 - 0.9 * smoothingFactor\<close>.\<close>

lemma smoothingAlpha_close:
  assumes "0 \<le> sf" and "sf \<le> 1"
  shows "\<bar>smoothingAlpha sf - (1 - 0.9 * sf)\<bar> \<le> 3 / 2 ^ 53"
proof -
  define w :: real where "w = 1 / 2 ^ 53"
  have w: "0 < w" "w \<le> 1/64" by (simp_all add: w_def)
  have conv: "b / 2 ^ 53 = b * w" for b :: real by (simp add: w_def)
  define c :: real where "c = 8106479329266893 / 9007199254740992"
  define p where "p = fl (sf * c)"
  have c: "0 \<le> c" "c \<le> 1" by (simp_all add: c_def)
  have c9: "\<bar>c - 0.9\<bar> \<le> (1/5) * w" by (simp add: c_def w_def)
  have sc: "0 \<le> sf * c" "sf * c \<le> 1" using assms c by (simp_all add: mult_le_one)
  then have "\<bar>sf * c\<bar> \<le> 1" by simp
  then have "\<bar>p - sf * c\<bar> \<le> 1 / 2 ^ 53" unfolding p_def by (rule fl_close) simp
  then have e1: "\<bar>p - sf * c\<bar> \<le> 1 * w" unfolding conv .
  have "sf * \<bar>c - 0.9\<bar> \<le> 1 * ((1/5) * w)"
    using assms c9 by (intro mult_mono) simp_all
  moreover have "sf * c - 0.9 * sf = sf * (c - 0.9)" by (simp add: algebra_simps)
  moreover have "\<bar>sf * (c - 0.9)\<bar> = sf * \<bar>c - 0.9\<bar>" using assms by (simp add: abs_mult)
  ultimately have e0: "\<bar>sf * c - 0.9 * sf\<bar> \<le> (1/5) * w" by simp
  have "\<bar>1 - p\<bar> \<le> 3/2" using e1 sc w by linarith
  then have "\<bar>fl (1 - p) - (1 - p)\<bar> \<le> (3/2) / 2 ^ 53" by (rule fl_close) simp
  then have e2: "\<bar>fl (1 - p) - (1 - p)\<bar> \<le> (3/2) * w" unfolding conv .
  have "smoothingAlpha sf = fl (1 - p)"
    using assms by (simp add: smoothingAlpha_eq fl_nine_tenths p_def c_def)
  moreover have "\<bar>fl (1 - p) - (1 - 0.9 * sf)\<bar> \<le> 3 * w" using e0 e1 e2 w by linarith
  ultimately show ?thesis unfolding conv by simp
qed

text \<open>One smoothing step with \<open>alpha = 1\<close> lands within \<open>3 * 2^-52\<close> of the new input.\<close>

lemma ewma_step_close:
  assumes "0 \<le> b" and "b \<le> 1" and "\<bar>p\<bar> \<le> 1 + 3 / 2 ^ 52"
  shows "\<bar>fl (p + fl (1 * fl (b - p))) - b\<bar> \<le> 3 / 2 ^ 52"
proof -
  define w :: real where "w = 1 / 2 ^ 53"
  have w: "0 < w" "w \<le> 1/64" by (simp_all add: w_def)
  have conv: "b / 2 ^ 53 = b * w" for b :: real by (simp add: w_def)
  have six: "(3::real) / 2 ^ 52 = 6 * w" by (simp add: w_def)
  define d1 where "d1 = fl (b - p)"
  define d2 where "d2 = fl (1 * d1)"
  have p: "\<bar>p\<bar> \<le> 1 + 6 * w" using assms(3) unfolding six .
  have b1: "\<bar>b - p\<bar> \<le> 17/8" using assms(1,2) p w by linarith
  then have "\<bar>d1 - (b - p)\<bar> \<le> (17/8) / 2 ^ 53" unfolding d1_def by (rule fl_close) simp
  then have e1: "\<bar>d1 - (b - p)\<bar> \<le> (17/8) * w" unfolding conv .
  have "\<bar>1 * d1\<bar> \<le> 18/8" using e1 b1 w by linarith
  then have "\<bar>d2 - 1 * d1\<bar> \<le> (18/8) / 2 ^ 53" unfolding d2_def by (rule fl_close) simp
  then have e2: "\<bar>d2 - 1 * d1\<bar> \<le> (18/8) * w" unfolding conv .
  have "\<bar>p + d2\<bar> \<le> 9/8" using e1 e2 assms(1,2) w by linarith
  then have "\<bar>fl (p + d2) - (p + d2)\<bar> \<le> (9/8) / 2 ^ 53" by (rule fl_close) simp
  then have e3: "\<bar>fl (p + d2) - (p + d2)\<bar> \<le> (9/8) * w" unfolding conv .
  have "\<bar>fl (p + d2) - b\<bar> \<le> 6 * w" using e1 e2 e3 w by linarith
  then show ?thesis unfolding d1_def [symmetric] d2_def [symmetric] six .
qed

lemma smoothLoop_one_close:
  "\<forall>s \<in> set xs. 0 \<le> cs_x s \<and> cs_x s \<le> 1 \<and> 0 \<le> cs_y s \<and> cs_y s \<le> 1 \<Longrightarrow>
   \<bar>sx\<bar> \<le> 1 + 3 / 2 ^ 52 \<Longrightarrow> \<bar>sy\<bar> \<le> 1 + 3 / 2 ^ 52 \<Longrightarrow> i < length xs \<Longrightarrow>
   \<bar>cs_x (smoothLoop 1 sx sy xs ! i) - cs_x (xs ! i)\<bar> \<le> 3 / 2 ^ 52
   \<and> \<bar>cs_y (smoothLoop 1 sx sy xs ! i) - cs_y (xs ! i)\<bar> \<le> 3 / 2 ^ 52"
proof (induction xs arbitrary: sx sy i)
  case Nil
  then show ?case by simp
next
  case (Cons s rest)
  define nx where "nx = fl (sx + fl (1 * fl (cs_x s - sx)))"
  define ny where "ny = fl (sy + fl (1 * fl (cs_y s - sy)))"
  have s: "0 \<le> cs_x s" "cs_x s \<le> 1" "0 \<le> cs_y s" "cs_y s \<le> 1" using Cons.prems(1) by simp_all
  have cx: "\<bar>nx - cs_x s\<bar> \<le> 3 / 2 ^ 52" unfolding nx_def by (rule ewma_step_close) (use s Cons.prems in simp_all)
  have cy: "\<bar>ny - cs_y s\<bar> \<le> 3 / 2 ^ 52" unfolding ny_def by (rule ewma_step_close) (use s Cons.prems in simp_all)
  have unf: "smoothLoop 1 sx sy (s # rest) = \<lparr>cs_ts = cs_ts s, cs_x = nx, cs_y = ny\<rparr> # smoothLoop 1 nx ny rest"
    by (simp add: Let_def nx_def ny_def)
  show ?case
  proof (cases i)
    case 0
    then show ?thesis using cx cy unfolding unf by simp
  next
    case (Suc j)
    have rest: "\<forall>s \<in> set rest. 0 \<le> cs_x s \<and> cs_x s \<le> 1 \<and> 0 \<le> cs_y s \<and> cs_y s \<le> 1"
      using Cons.prems(1) by simp
    have bx: "\<bar>nx\<bar> \<le> 1 + 3 / 2 ^ 52" using cx s(1,2) by linarith
    have by': "\<bar>ny\<bar> \<le> 1 + 3 / 2 ^ 52" using cy s(3,4) by linarith
    have j: "j < length rest" using Cons.prems(4) Suc by simp
    from Cons.IH [OF rest bx by' j] show ?thesis unfolding unf Suc by simp
  qed
qed

lemma eventSample_range:
  "eventSample ef ev = Some s \<Longrightarrow> 0 \<le> cs_x s \<and> cs_x s \<le> 1 \<and> 0 \<le> cs_y s \<and> cs_y s \<le> 1"
  by (cases ev) (auto simp: clamp_def)

lemma sortedSamples_range:
  "s \<in> set (sortedSamples ef) \<Longrightarrow> 0 \<le> cs_x s \<and> cs_x s \<le> 1 \<and> 0 \<le> cs_y s \<and> cs_y s \<le> 1"
  by (auto simp: sortedSamples_def List.map_filter_def dest: eventSample_range)

lemma ewma_zero_close:
  assumes "0 < screenWidth ef" and "0 < screenHeight ef" and "i < length (sortedSamples ef)"
  shows "\<bar>cs_x (extractCursorSamples (Some ef) 0 ! i) - cs_x (sortedSamples ef ! i)\<bar> \<le> 3 / 2 ^ 52
       \<and> \<bar>cs_y (extractCursorSamples (Some ef) 0 ! i) - cs_y (sortedSamples ef ! i)\<bar> \<le> 3 / 2 ^ 52"
proof (cases "length (sortedSamples ef) \<le> 1")
  case True
  then have "extractCursorSamples (Some ef) 0 = sortedSamples ef"
    using assms by (simp add: extractCursorSamples_def Let_def)
  then show ?thesis by simp
next
  case False
  then obtain h t where ht: "sortedSamples ef = h # t" by (cases "sortedSamples ef") auto
  have out: "extractCursorSamples (Some ef) 0 = h # smoothLoop 1 (cs_x h) (cs_y h) t"
    using assms False by (simp add: extractCursorSamples_def Let_def ht smoothingAlpha_zero)
  have h: "0 \<le> cs_x h \<and> cs_x h \<le> 1 \<and> 0 \<le> cs_y h \<and> cs_y h \<le> 1"
    by (rule sortedSamples_range [of h ef]) (simp add: ht)
  have t: "\<forall>s \<in> set t. 0 \<le> cs_x s \<and> cs_x s \<le> 1 \<and> 0 \<le> cs_y s \<and> cs_y s \<le> 1"
    using sortedSamples_range [of _ ef] by (simp add: ht)
  show ?thesis
  proof (cases i)
    case 0
    then show ?thesis unfolding out ht by simp
  next
    case (Suc j)
    then have j: "j < length t" using assms(3) ht by simp
    have "\<bar>cs_x h\<bar> \<le> 1 + 3 / 2 ^ 52" "\<bar>cs_y h\<bar> \<le> 1 + 3 / 2 ^ 52" using h by (simp_all add: abs_le_iff)
    from smoothLoop_one_close [OF t this j] show ?thesis unfolding out ht Suc by simp
  qed
qed

lemma ewma_positive_screen:
  assumes "0 < screenWidth ef" and "0 < screenHeight ef" and "0 \<le> sf" and "sf \<le> 1"
  shows "let inp = sortedSamples ef; out = extractCursorSamples (Some ef) sf; alpha = smoothingAlpha sf
         in sorted (map cs_ts inp)
            \<and> length out = length inp
            \<and> (\<forall>i < length inp. cs_ts (out ! i) = cs_ts (inp ! i))
            \<and> (inp \<noteq> [] \<longrightarrow> out ! 0 = inp ! 0)
            \<and> (\<forall>i. 0 < i \<and> i < length inp \<longrightarrow>
                  cs_x (out ! i) = fl (cs_x (out ! (i - 1)) + fl (alpha * fl (cs_x (inp ! i) - cs_x (out ! (i - 1)))))
                \<and> cs_y (out ! i) = fl (cs_y (out ! (i - 1)) + fl (alpha * fl (cs_y (inp ! i) - cs_y (out ! (i - 1))))))"
proof -
  define inp where "inp = sortedSamples ef"
  define a where "a = smoothingAlpha sf"
  have srt: "sorted (map cs_ts inp)" by (simp add: inp_def sortedSamples_def)
  show ?thesis
  proof (cases "length inp \<le> 1")
    case True
    then have out: "extractCursorSamples (Some ef) sf = inp"
      using assms by (simp add: extractCursorSamples_def inp_def Let_def)
    have v: "(0 < i \<and> i < length inp) = False" for i using True by auto
    show ?thesis using srt unfolding Let_def inp_def [symmetric] out by (simp add: v)
  next
    case False
    then obtain h t where ht: "inp = h # t" and tne: "t \<noteq> []" by (cases inp) auto
    have out: "extractCursorSamples (Some ef) sf = h # smoothLoop a (cs_x h) (cs_y h) t"
      using assms False by (simp add: extractCursorSamples_def inp_def [symmetric] Let_def a_def ht)
    define out where "out = h # smoothLoop a (cs_x h) (cs_y h) t"
    have len: "length out = length inp" by (simp add: out_def ht)
    have ts: "\<forall>i < length inp. cs_ts (out ! i) = cs_ts (inp ! i)"
      by (auto simp: out_def ht nth_Cons smoothLoop_ts split: nat.splits)
    have rec: "cs_x (out ! i) = fl (cs_x (out ! (i - 1)) + fl (a * fl (cs_x (inp ! i) - cs_x (out ! (i - 1)))))
             \<and> cs_y (out ! i) = fl (cs_y (out ! (i - 1)) + fl (a * fl (cs_y (inp ! i) - cs_y (out ! (i - 1)))))"
      if "0 < i \<and> i < length inp" for i
    proof -
      from that obtain j where j: "i = Suc j" "j < length t" by (cases i) (auto simp: ht)
      show ?thesis
        using smoothLoop_x [OF j(2), of a "cs_x h" "cs_y h"] smoothLoop_y [OF j(2), of a "cs_x h" "cs_y h"]
        by (cases j) (simp_all add: out_def ht j(1) Let_def)
    qed
    show ?thesis
      unfolding Let_def inp_def [symmetric] out out_def [symmetric] a_def [symmetric]
      using srt len ts rec by (simp add: out_def ht)
  qed
qed

text \<open>
  C6 fails for the doubles of the code: with smoothing factor 1 the computed \<open>alpha\<close> is
  \<open>1 - 0.9 = 0.09999999999999998\<close>, which is neither the real number 0.1 nor the double
  nearest to it; and with smoothing factor 0, on a 1920 by 1080 screen, the pointer moving
  from pixel 3 to pixel 1 gives a second output sample one unit in the last place below the
  normalized input sample.
\<close>

theorem extractCursorSamples_exact_counterexample:
  "smoothingAlpha 1 = 900719925474099 / 9007199254740992
   \<and> smoothingAlpha 1 \<noteq> 1 / 10
   \<and> smoothingAlpha 1 \<noteq> fl (1 / 10)
   \<and> sortedSamples pixelEvents =
        [\<lparr>cs_ts = 0, cs_x = 3602879701896397 / 2305843009213693952, cs_y = 1 / 2\<rparr>,
         \<lparr>cs_ts = 10, cs_x = 4803839602528529 / 9223372036854775808, cs_y = 1 / 2\<rparr>]
   \<and> extractCursorSamples (Some pixelEvents) 0 =
        [\<lparr>cs_ts = 0, cs_x = 3602879701896397 / 2305843009213693952, cs_y = 1 / 2\<rparr>,
         \<lparr>cs_ts = 10, cs_x = 300239975158033 / 576460752303423488, cs_y = 1 / 2\<rparr>]
   \<and> extractCursorSamples (Some pixelEvents) 0 \<noteq> sortedSamples pixelEvents"
  by code_simp

text \<open>
  C6, amended. For every events file and every smoothing factor between 0 and 1: when the
  screen size is positive, the output of the cursor pipeline has the timestamps of the
  time-sorted normalized samples, starts with the first of them, and each later output is
  the previous output plus \<open>alpha\<close> times the difference between the input and the previous
  output, every operation rounded to a double, where \<open>alpha\<close> is the rounded
  \<open>1 - smoothingFactor * 0.9\<close> and lies within \<open>3 * 2^-53\<close> of the real number
  \<open>1 - 0.9 * smoothingFactor\<close>. With smoothing factor 0 \<open>alpha\<close> is exactly 1 and every output
  coordinate is within \<open>3 * 2^-52\<close> of the input coordinate; with smoothing factor 1 \<open>alpha\<close> is
  \<open>900719925474099 / 2^53\<close>. Without a positive screen size, or without an events file, there
  are no samples.
\<close>

theorem extractCursorSamples_ewma:
  assumes "0 \<le> sf" and "sf \<le> 1"
  shows "(0 < screenWidth ef \<and> 0 < screenHeight ef \<longrightarrow>
           (let inp = sortedSamples ef; out = extractCursorSamples (Some ef) sf; alpha = smoothingAlpha sf
            in sorted (map cs_ts inp)
               \<and> length out = length inp
               \<and> (\<forall>i < length inp. cs_ts (out ! i) = cs_ts (inp ! i))
               \<and> (inp \<noteq> [] \<longrightarrow> out ! 0 = inp ! 0)
               \<and> (\<forall>i. 0 < i \<and> i < length inp \<longrightarrow>
                     cs_x (out ! i) = fl (cs_x (out ! (i - 1)) + fl (alpha * fl (cs_x (inp ! i) - cs_x (out ! (i - 1)))))
                   \<and> cs_y (out ! i) = fl (cs_y (out ! (i - 1)) + fl (alpha * fl (cs_y (inp ! i) - cs_y (out ! (i - 1))))))
               \<and> alpha = fl (1 - fl (sf * fl (9/10)))
               \<and> \<bar>alpha - (1 - 0.9 * sf)\<bar> \<le> 3 / 2 ^ 53
               \<and> (\<forall>i < length inp.
                     \<bar>cs_x (extractCursorSamples (Some ef) 0 ! i) - cs_x (inp ! i)\<bar> \<le> 3 / 2 ^ 52
                   \<and> \<bar>cs_y (extractCursorSamples (Some ef) 0 ! i) - cs_y (inp ! i)\<bar> \<le> 3 / 2 ^ 52)))
       \<and> smoothingAlpha 0 = 1
       \<and> smoothingAlpha 1 = 900719925474099 / 2 ^ 53
       \<and> (screenWidth ef \<le> 0 \<or> screenHeight ef \<le> 0 \<longrightarrow> extractCursorSamples (Some ef) sf = [])
       \<and> extractCursorSamples None sf = []"
proof (intro conjI impI)
  assume pos: "0 < screenWidth ef \<and> 0 < screenHeight ef"
  have close: "\<forall>i < length (sortedSamples ef).
       \<bar>cs_x (extractCursorSamples (Some ef) 0 ! i) - cs_x (sortedSamples ef ! i)\<bar> \<le> 3 / 2 ^ 52
     \<and> \<bar>cs_y (extractCursorSamples (Some ef) 0 ! i) - cs_y (sortedSamples ef ! i)\<bar> \<le> 3 / 2 ^ 52"
    using ewma_zero_close [of ef] pos by blast
  show "let inp = sortedSamples ef; out = extractCursorSamples (Some ef) sf; alpha = smoothingAlpha sf
            in sorted (map cs_ts inp)
               \<and> length out = length inp
               \<and> (\<forall>i < length inp. cs_ts (out ! i) = cs_ts (inp ! i))
               \<and> (inp \<noteq> [] \<longrightarrow> out ! 0 = inp ! 0)
               \<and> (\<forall>i. 0 < i \<and> i < length inp \<longrightarrow>
                     cs_x (out ! i) = fl (cs_x (out ! (i - 1)) + fl (alpha * fl (cs_x (inp ! i) - cs_x (out ! (i - 1)))))
                   \<and> cs_y (out ! i) = fl (cs_y (out ! (i - 1)) + fl (alpha * fl (cs_y (inp ! i) - cs_y (out ! (i - 1))))))
               \<and> alpha = fl (1 - fl (sf * fl (9/10)))
               \<and> \<bar>alpha - (1 - 0.9 * sf)\<bar> \<le> 3 / 2 ^ 53
               \<and> (\<forall>i < length inp.
                     \<bar>cs_x (extractCursorSamples (Some ef) 0 ! i) - cs_x (inp ! i)\<bar> \<le> 3 / 2 ^ 52
                   \<and> \<bar>cs_y (extractCursorSamples (Some ef) 0 ! i) - cs_y (inp ! i)\<bar> \<le> 3 / 2 ^ 52)"
    using ewma_positive_screen [of ef sf] pos assms smoothingAlpha_eq [OF assms]
      smoothingAlpha_close [OF assms] close
    unfolding Let_def by blast
next
  show "smoothingAlpha 0 = 1" by (rule smoothingAlpha_zero)
next
  show "smoothingAlpha 1 = 900719925474099 / 2 ^ 53" by (simp add: smoothingAlpha_one)
next
  assume "screenWidth ef \<le> 0 \<or> screenHeight ef \<le> 0"
  then show "extractCursorSamples (Some ef) sf = []"
    by (auto simp: extractCursorSamples_def)
next
  show "extractCursorSamples None sf = []" by (simp add: extractCursorSamples_def)
qed

lemma demo_sorted:
  "sortedSamples demoEvents =
     [\<lparr>cs_ts = 10, cs_x = 3602879701896397 / 36028797018963968, cs_y = 3602879701896397 / 18014398509481984\<rparr>,
      \<lparr>cs_ts = 20, cs_x = 1 / 2, cs_y = 1 / 2\<rparr>, \<lparr>cs_ts = 30, cs_x = 1, cs_y = 1\<rparr>]"
  by code_simp

lemma demo_smoothed:
  "extractCursorSamples (Some demoEvents) (1/2) =
     [\<lparr>cs_ts = 10, cs_x = 3602879701896397 / 36028797018963968, cs_y = 3602879701896397 / 18014398509481984\<rparr>,
      \<lparr>cs_ts = 20, cs_x = 1441151880758559 / 4503599627370496, cs_y = 1643813863990231 / 4503599627370496\<rparr>,
      \<lparr>cs_ts = 30, cs_x = 6250996282790249 / 9007199254740992, cs_y = 3216696033849377 / 4503599627370496\<rparr>]"
  by code_simp

lemma demo_alpha: "smoothingAlpha (1/2) = 2476979795053773 / 4503599627370496"
  by code_simp

theorem extractCursorSamples_ewma_witness:
  "0 < screenWidth demoEvents \<and> 0 < screenHeight demoEvents \<and> (0::real) \<le> 1/2 \<and> (1/2::real) \<le> 1
   \<and> sortedSamples demoEvents =
       [\<lparr>cs_ts = 10, cs_x = 3602879701896397 / 36028797018963968, cs_y = 3602879701896397 / 18014398509481984\<rparr>,
        \<lparr>cs_ts = 20, cs_x = 1 / 2, cs_y = 1 / 2\<rparr>, \<lparr>cs_ts = 30, cs_x = 1, cs_y = 1\<rparr>]
   \<and> extractCursorSamples (Some demoEvents) (1/2) =
       [\<lparr>cs_ts = 10, cs_x = 3602879701896397 / 36028797018963968, cs_y = 3602879701896397 / 18014398509481984\<rparr>,
        \<lparr>cs_ts = 20, cs_x = 1441151880758559 / 4503599627370496, cs_y = 1643813863990231 / 4503599627370496\<rparr>,
        \<lparr>cs_ts = 30, cs_x = 6250996282790249 / 9007199254740992, cs_y = 3216696033849377 / 4503599627370496\<rparr>]
   \<and> smoothingAlpha (1/2) = 2476979795053773 / 4503599627370496
   \<and> \<bar>smoothingAlpha (1/2) - (1 - 0.9 * (1/2))\<bar> \<le> 3 / 2 ^ 53
   \<and> smoothingAlpha 0 = 1"
  using extractCursorSamples_ewma [of "1/2" demoEvents] demo_sorted demo_smoothed demo_alpha
  by (simp add: demoEvents_def Let_def)

section \<open>Properties of the segment model\<close>

subsection \<open>Gap search\<close>

lemma gapScan_inv:
  assumes "sorted (map startTs rest)" and "0 \<le> cursor" and "cursor \<le> D"
    and "\<forall>s \<in> set done. clamp (endTs s) 0 D \<le> cursor"
    and "\<forall>g \<in> set gaps. 0 \<le> gap_start g \<and> gap_end g \<le> D
            \<and> (\<forall>s \<in> set (done @ rest). clearOf (gap_start g) (gap_end g) s)"
    and "gapScan D rest cursor gaps = (c', gaps')"
  shows "0 \<le> c' \<and> c' \<le> D \<and> (\<forall>s \<in> set (done @ rest). clamp (endTs s) 0 D \<le> c')
       \<and> (\<forall>g \<in> set gaps'. 0 \<le> gap_start g \<and> gap_end g \<le> D
            \<and> (\<forall>s \<in> set (done @ rest). clearOf (gap_start g) (gap_end g) s))"
  using assms
proof (induction rest arbitrary: cursor gaps "done")
  case Nil
  then show ?case by simp
next
  case (Cons seg rest)
  define segStart where "segStart = clamp (startTs seg) 0 D"
  define segEnd where "segEnd = clamp (endTs seg) 0 D"
  define newGap where "newGap = \<lparr>gap_start = gapAfter cursor, gap_end = segStart - MIN_SEGMENT_GAP_MS\<rparr>"
  define push where "push \<longleftrightarrow> segStart > cursor \<and> gap_end newGap - gap_start newGap \<ge> MIN_SEGMENT_MS"
  define gaps1 where "gaps1 = (if push then gaps @ [newGap] else gaps)"
  have D0: "0 \<le> D" using Cons.prems by simp
  have step: "gapScan D (seg # rest) cursor gaps = gapScan D rest (max cursor segEnd) gaps1"
    by (simp add: Let_def segStart_def segEnd_def gaps1_def push_def newGap_def)
  have se: "0 \<le> segEnd" "segEnd \<le> D" using D0 by (simp_all add: segEnd_def clamp_def)
  have new: "clearOf (gap_start newGap) (gap_end newGap) s" if push and "s \<in> set (done @ seg # rest)" for s
  proof (cases "s \<in> set done")
    case True
    then have c: "clamp (endTs s) 0 D \<le> cursor" using Cons.prems(4) by simp
    have "cursor < D" using \<open>push\<close> D0 by (simp add: push_def segStart_def clamp_def)
    with c have "endTs s \<le> cursor" by (simp add: clamp_def min_def max_def split: if_splits)
    then show ?thesis using Cons.prems(2)
      by (auto simp: clearOf_def newGap_def gapAfter_def)
  next
    case False
    with that have "s \<in> set (seg # rest)" by simp
    then have le: "startTs seg \<le> startTs s" using Cons.prems(1) by auto
    have "0 < segStart" using \<open>push\<close> Cons.prems(2) by (simp add: push_def)
    then have "segStart \<le> startTs seg" by (simp add: segStart_def clamp_def min_def max_def split: if_splits)
    with le show ?thesis by (simp add: clearOf_def newGap_def)
  qed
  have "0 \<le> c' \<and> c' \<le> D \<and> (\<forall>s \<in> set ((done @ [seg]) @ rest). clamp (endTs s) 0 D \<le> c')
       \<and> (\<forall>g \<in> set gaps'. 0 \<le> gap_start g \<and> gap_end g \<le> D
            \<and> (\<forall>s \<in> set ((done @ [seg]) @ rest). clearOf (gap_start g) (gap_end g) s))"
  proof (rule Cons.IH)
    show "sorted (map startTs rest)" using Cons.prems(1) by simp
    show "0 \<le> max cursor segEnd" using Cons.prems(2) by simp
    show "max cursor segEnd \<le> D" using Cons.prems(3) se by simp
    show "\<forall>s \<in> set (done @ [seg]). clamp (endTs s) 0 D \<le> max cursor segEnd"
      using Cons.prems(4) by (auto simp: segEnd_def max_def)
    have "0 \<le> gap_start newGap" using Cons.prems(2) by (simp add: newGap_def gapAfter_def MIN_SEGMENT_GAP_MS_def)
    moreover have "gap_end newGap \<le> D" using D0 by (simp add: newGap_def segStart_def clamp_def MIN_SEGMENT_GAP_MS_def)
    ultimately show "\<forall>g \<in> set gaps1. 0 \<le> gap_start g \<and> gap_end g \<le> D
            \<and> (\<forall>s \<in> set ((done @ [seg]) @ rest). clearOf (gap_start g) (gap_end g) s)"
      using Cons.prems(5) new by (auto simp: gaps1_def)
    show "gapScan D rest (max cursor segEnd) gaps1 = (c', gaps')"
      using Cons.prems(6) step by simp
  qed
  then show ?case by simp
qed

lemma findAvailableGap_clear:
  assumes "findAvailableGapForSegment segments timelineDurationMs preferredStartTs = Some slot"
    and "s \<in> set segments"
  shows "clearOf (slot_startTs slot) (slot_endTs slot) s
       \<and> slot_startTs slot + MIN_SEGMENT_MS \<le> slot_endTs slot
       \<and> 0 \<le> slot_startTs slot \<and> slot_endTs slot \<le> timelineDurationMs"
proof -
  define D where "D = max 0 timelineDurationMs"
  define srt where "srt = sort_key startTs segments"
  obtain c gaps0 where scan: "gapScan D srt 0 [] = (c, gaps0)" by (cases "gapScan D srt 0 []")
  define gaps where "gaps = (if c < D \<and> D - gapAfter c \<ge> MIN_SEGMENT_MS
                             then gaps0 @ [\<lparr>gap_start = gapAfter c, gap_end = D\<rparr>] else gaps0)"
  define preferred where "preferred = clamp preferredStartTs 0 (D - MIN_SEGMENT_MS)"
  have D200: "\<not> D < MIN_SEGMENT_MS"
    using assms(1) by (auto simp: findAvailableGapForSegment_def Let_def D_def split: if_splits)
  then have Dt: "D = timelineDurationMs" by (simp add: D_def MIN_SEGMENT_MS_def max_def split: if_splits)
  have D0: "0 \<le> D" by (simp add: D_def)
  have inv: "0 \<le> c \<and> c \<le> D \<and> (\<forall>s \<in> set ([] @ srt). clamp (endTs s) 0 D \<le> c)
       \<and> (\<forall>g \<in> set gaps0. 0 \<le> gap_start g \<and> gap_end g \<le> D
            \<and> (\<forall>s \<in> set ([] @ srt). clearOf (gap_start g) (gap_end g) s))"
    by (rule gapScan_inv [OF _ _ _ _ _ scan]) (use D0 in \<open>simp_all add: srt_def\<close>)
  have sset: "set srt = set segments" by (simp add: srt_def)
  have last: "clearOf (gapAfter c) D s'" if "c < D" and "s' \<in> set segments" for s'
  proof -
    have "clamp (endTs s') 0 D \<le> c" using inv that(2) sset by simp
    with that(1) have "endTs s' \<le> c" by (simp add: clamp_def min_def max_def split: if_splits)
    then show ?thesis using inv by (auto simp: clearOf_def gapAfter_def)
  qed
  have gaps_ok: "0 \<le> gap_start g \<and> gap_end g \<le> D \<and> clearOf (gap_start g) (gap_end g) s"
    if "g \<in> set gaps" for g
    using that inv last assms(2) sset
    by (auto simp: gaps_def gapAfter_def MIN_SEGMENT_GAP_MS_def split: if_splits)
  have res: "findAvailableGapForSegment segments timelineDurationMs preferredStartTs =
     (case find (\<lambda>gap. gap_end gap - gap_start gap \<ge> MIN_SEGMENT_MS \<and> preferred < gap_end gap) gaps of
        None \<Rightarrow> None
      | Some preferredGap \<Rightarrow>
          (let gapStart = gap_start preferredGap;
               gapEnd = gap_end preferredGap;
               startTs0 = clamp preferred gapStart (max gapStart (gapEnd - MIN_SEGMENT_MS));
               endTs0 = min (startTs0 + 1600) gapEnd
           in if endTs0 - startTs0 < MIN_SEGMENT_MS
              then Some \<lparr>slot_startTs = max gapStart (gapEnd - MIN_SEGMENT_MS), slot_endTs = gapEnd\<rparr>
              else Some \<lparr>slot_startTs = startTs0, slot_endTs = endTs0\<rparr>))"
    unfolding preferred_def gaps_def using D200 scan
    by (simp add: findAvailableGapForSegment_def Let_def D_def [symmetric] srt_def [symmetric])
  from assms(1) res obtain g where
    f: "find (\<lambda>gap. gap_end gap - gap_start gap \<ge> MIN_SEGMENT_MS \<and> preferred < gap_end gap) gaps = Some g"
    by (auto split: option.splits)
  then have gin: "g \<in> set gaps" and glen: "gap_end g - gap_start g \<ge> MIN_SEGMENT_MS"
    by (auto simp: find_Some_iff)
  from gaps_ok [OF gin] have g0: "0 \<le> gap_start g" and gD: "gap_end g \<le> D"
    and gc: "clearOf (gap_start g) (gap_end g) s" by simp_all
  have inside: "gap_start g \<le> slot_startTs slot \<and> slot_endTs slot \<le> gap_end g
        \<and> slot_startTs slot + MIN_SEGMENT_MS \<le> slot_endTs slot"
    using assms(1) glen unfolding res f
    by (auto simp: Let_def clamp_def MIN_SEGMENT_MS_def min_def max_def split: if_splits)
  then have "clearOf (slot_startTs slot) (slot_endTs slot) s"
    using gc by (auto simp: clearOf_def)
  then show ?thesis using inside g0 gD Dt by simp
qed


text \<open>
  C8 as the specification states it: a returned slot would be disjoint from every segment.
  The first gap of the timeline starts at time 0 without the 200 ms margin, so next to a
  segment that ends at time 0 the slot starts at that very time: both contain the point 0.
\<close>

theorem findAvailableGap_touches_counterexample:
  "findAvailableGapForSegment [manualSegment ''a'' (- 300) 0] 10000 0
     = Some \<lparr>slot_startTs = 0, slot_endTs = 1600\<rparr>
   \<and> startTs (manualSegment ''a'' (- 300) 0) \<le> 0 \<and> 0 \<le> endTs (manualSegment ''a'' (- 300) 0)
   \<and> slot_startTs \<lparr>slot_startTs = 0, slot_endTs = 1600\<rparr> \<le> 0
   \<and> 0 \<le> slot_endTs \<lparr>slot_startTs = 0, slot_endTs = 1600\<rparr>"
  by code_simp

text \<open>
  C8, amended. The gap search returns none when the timeline is shorter than the minimal
  segment length of 200 ms, and a returned slot never overlaps a segment of the list by more
  than a point: it ends at or before the start of the segment or starts at or after its end,
  and it is disjoint from every segment that ends after time 0. This holds for every segment
  list, sorted or not.
\<close>

theorem findAvailableGap_no_overlap:
  "(timelineDurationMs < MIN_SEGMENT_MS \<longrightarrow>
      findAvailableGapForSegment segments timelineDurationMs preferredStartTs = None)
   \<and> (\<forall>slot s. findAvailableGapForSegment segments timelineDurationMs preferredStartTs = Some slot
          \<and> s \<in> set segments \<longrightarrow>
          (slot_endTs slot \<le> startTs s \<or> endTs s \<le> slot_startTs slot)
        \<and> (0 < endTs s \<longrightarrow> slot_endTs slot < startTs s \<or> endTs s < slot_startTs slot))"
proof (intro conjI allI impI)
  assume "timelineDurationMs < MIN_SEGMENT_MS"
  then show "findAvailableGapForSegment segments timelineDurationMs preferredStartTs = None"
    by (simp add: findAvailableGapForSegment_def Let_def MIN_SEGMENT_MS_def)
next
  fix slot s
  assume a: "findAvailableGapForSegment segments timelineDurationMs preferredStartTs = Some slot
             \<and> s \<in> set segments"
  then have c: "clearOf (slot_startTs slot) (slot_endTs slot) s"
    using findAvailableGap_clear by blast
  then show "slot_endTs slot \<le> startTs s \<or> endTs s \<le> slot_startTs slot"
    by (auto simp: clearOf_def MIN_SEGMENT_GAP_MS_def)
  assume "0 < endTs s"
  with c show "slot_endTs slot < startTs s \<or> endTs s < slot_startTs slot"
    by (auto simp: clearOf_def MIN_SEGMENT_GAP_MS_def)
qed

lemma demo_gap:
  "findAvailableGapForSegment [manualSegment ''a'' 1000 3000, manualSegment ''b'' 4000 6000] 10000 3200
     = Some \<lparr>slot_startTs = 3200, slot_endTs = 3800\<rparr>"
  by code_simp

theorem findAvailableGap_no_overlap_witness:
  "findAvailableGapForSegment [manualSegment ''a'' 1000 3000, manualSegment ''b'' 4000 6000] 10000 3200
     = Some \<lparr>slot_startTs = 3200, slot_endTs = 3800\<rparr>
   \<and> manualSegment ''a'' 1000 3000 \<in> set [manualSegment ''a'' 1000 3000, manualSegment ''b'' 4000 6000]
   \<and> 0 < endTs (manualSegment ''a'' 1000 3000)
   \<and> endTs (manualSegment ''a'' 1000 3000) < 3200
   \<and> (150 :: real) < MIN_SEGMENT_MS
   \<and> findAvailableGapForSegment [manualSegment ''a'' 1000 3000, manualSegment ''b'' 4000 6000] 150 0 = None"
proof -
  note t = findAvailableGap_no_overlap
    [of _ "[manualSegment ''a'' 1000 3000, manualSegment ''b'' 4000 6000]"]
  have n: "findAvailableGapForSegment [manualSegment ''a'' 1000 3000, manualSegment ''b'' 4000 6000] 150 0 = None"
    using t [of 150 0] by (simp add: MIN_SEGMENT_MS_def)
  have "slot_endTs \<lparr>slot_startTs = 3200, slot_endTs = 3800\<rparr> < startTs (manualSegment ''a'' 1000 3000)
        \<or> endTs (manualSegment ''a'' 1000 3000) < slot_startTs \<lparr>slot_startTs = 3200, slot_endTs = 3800\<rparr>"
    using t [of 10000 3200, THEN conjunct2, rule_format,
             of "\<lparr>slot_startTs = 3200, slot_endTs = 3800\<rparr>" "manualSegment ''a'' 1000 3000"] demo_gap
    by (simp add: manualSegment_def)
  then have "endTs (manualSegment ''a'' 1000 3000) < 3200" by (simp add: manualSegment_def)
  then show ?thesis using n demo_gap by (simp add: manualSegment_def MIN_SEGMENT_MS_def)
qed

subsection \<open>Trimming of automatic segments\<close>

lemma normalizeRect_idem: "normalizeRect (normalizeRect r) = normalizeRect r"
  by (simp add: normalizeRect_def clamp_def Let_def MIN_RECT_SIZE_def min_def max_def)

lemma okPoints_sort:
  assumes "\<forall>p \<in> set ps. lo \<le> tp_ts p \<and> tp_ts p \<le> hi \<and> normalizeRect (tp_rect p) = tp_rect p"
  shows "okPoints lo hi (sort_key tp_ts ps)"
  using assms by (simp add: okPoints_def)

lemma sorted_hd_le:
  fixes xs :: "real list"
  shows "sorted xs \<Longrightarrow> x \<in> set xs \<Longrightarrow> hd xs \<le> x"
  by (cases xs) auto

lemma sorted_le_last:
  fixes xs :: "real list"
  shows "sorted xs \<Longrightarrow> x \<in> set xs \<Longrightarrow> x \<le> last xs"
  by (induction xs) auto

lemma okPoints_close:
  assumes "okPoints lo hi ps" and "ps \<noteq> []" and "lo \<le> hi"
  shows "okPoints lo hi
           (let points = (if tp_ts (hd ps) > lo then [\<lparr>tp_ts = lo, tp_rect = tp_rect (hd ps)\<rparr>] else []) @ ps;
                lastPoint = last points
            in if tp_ts lastPoint < hi then points @ [\<lparr>tp_ts = hi, tp_rect = tp_rect lastPoint\<rparr>] else points)"
proof -
  have hdin: "hd ps \<in> set ps" and lastin: "last ps \<in> set ps" using assms(2) by simp_all
  define pre where "pre = (if tp_ts (hd ps) > lo then [\<lparr>tp_ts = lo, tp_rect = tp_rect (hd ps)\<rparr>] else [])"
  have 1: "okPoints lo hi (pre @ ps)"
    using assms(1,3) hdin unfolding okPoints_def pre_def
    by (auto simp: sorted_append)
  have l: "last (pre @ ps) = last ps" using assms(2) by simp
  have 2: "okPoints lo hi ((pre @ ps) @ [\<lparr>tp_ts = hi, tp_rect = tp_rect (last ps)\<rparr>])"
    using 1 assms(1,3) lastin unfolding okPoints_def
    by (auto simp: sorted_append)
  show ?thesis
    unfolding Let_def pre_def [symmetric] l using 1 2 by simp
qed

lemma points_ok:
  assumes "startTs s \<le> endTs s"
  shows "okPoints (startTs s) (endTs s) (getSegmentTargetPoints s) \<and> getSegmentTargetPoints s \<noteq> []"
proof -
  define E where "E = sort_key tp_ts
              (map (\<lambda>point. \<lparr>tp_ts = clamp (tp_ts point) (startTs s) (endTs s),
                              tp_rect = normalizeRect (tp_rect point)\<rparr>)
                   (case targetPoints s of Some ps \<Rightarrow> ps | None \<Rightarrow> []))"
  have okE: "okPoints (startTs s) (endTs s) E"
    unfolding E_def using assms
    by (intro okPoints_sort) (auto simp: clamp_def normalizeRect_idem)
  show ?thesis
  proof (cases "E = []")
    case False
    from okPoints_close [OF okE False assms] False show ?thesis
      unfolding getSegmentTargetPoints_def E_def [symmetric] by (simp add: Let_def)
  next
    case True
    define L where "L = getSortedPanTrajectory s"
    have b: "normalizeRect (getSegmentBaseRect s) = getSegmentBaseRect s"
      by (simp add: getSegmentBaseRect_def normalizeRect_idem)
    have lp: "normalizeRect (getLegacyPanRectAtTimelineTs s t) = getLegacyPanRectAtTimelineTs s t" for t
      by (simp add: getLegacyPanRectAtTimelineTs_def Let_def normalizeRect_idem split: prod.splits)
    show ?thesis
    proof (cases "L = []")
      case L: True
      show ?thesis
        unfolding getSegmentTargetPoints_def E_def [symmetric] L_def [symmetric]
        using True L assms b by (simp add: Let_def okPoints_def)
    next
      case L: False
      have "okPoints (startTs s) (endTs s) (sort_key tp_ts
                         ([\<lparr>tp_ts = startTs s, tp_rect = getLegacyPanRectAtTimelineTs s (startTs s)\<rparr>]
                          @ map (\<lambda>keyframe. \<lparr>tp_ts = pk_ts keyframe,
                                     tp_rect = getLegacyPanRectAtTimelineTs s (pk_ts keyframe)\<rparr>)
                                (filter (\<lambda>keyframe. \<not> (pk_ts keyframe < startTs s
                                                         \<or> pk_ts keyframe > endTs s)) L)
                          @ [\<lparr>tp_ts = endTs s, tp_rect = getLegacyPanRectAtTimelineTs s (endTs s)\<rparr>]))"
        using assms by (intro okPoints_sort) (auto simp: lp)
      then show ?thesis
        unfolding getSegmentTargetPoints_def E_def [symmetric] L_def [symmetric]
        using True L by (simp add: Let_def)
    qed
  qed
qed

lemma find_filter_keep:
  "find Q ps = Some x \<Longrightarrow> R x \<Longrightarrow> find Q (filter R ps) = Some x"
  by (induction ps) (auto split: if_splits)

lemma find_append_left: "find Q xs = Some x \<Longrightarrow> find Q (xs @ ys) = Some x"
  by (induction xs) (auto split: if_splits)

lemma points_nonempty: "getSegmentTargetPoints s \<noteq> []"
proof -
  define E where "E = sort_key tp_ts
              (map (\<lambda>point. \<lparr>tp_ts = clamp (tp_ts point) (startTs s) (endTs s),
                              tp_rect = normalizeRect (tp_rect point)\<rparr>)
                   (case targetPoints s of Some ps \<Rightarrow> ps | None \<Rightarrow> []))"
  show ?thesis
    unfolding getSegmentTargetPoints_def E_def [symmetric]
    by (cases "E = []"; cases "getSortedPanTrajectory s = []") (simp_all add: Let_def)
qed

lemma trim_result:
  assumes "isAuto s" and "trimAutoNoopSegment s = Some s'"
  shows "\<exists>T fe. s' = s\<lparr>startTs := tp_ts (hd T), initialRect := Some (tp_rect (hd T)), targetPoints := Some T\<rparr>
            \<and> goodTrim (endTs s) T
            \<and> find isEffective (getSegmentTargetPoints s) = Some fe \<and> tp_ts (hd T) = tp_ts fe
            \<and> (\<forall>p \<in> set T. tp_ts fe \<le> tp_ts p)
            \<and> (\<forall>p \<in> set (getSegmentTargetPoints s). tp_ts fe \<le> tp_ts p \<longrightarrow> p \<in> set T)"
proof -
  define P where "P = getSegmentTargetPoints s"
  have Pne: "P \<noteq> []" by (simp add: P_def points_nonempty)
  from assms Pne obtain fe where fe: "find isEffective P = Some fe"
    by (auto simp: trimAutoNoopSegment_def Let_def P_def [symmetric] split: if_splits option.splits)
  define eff where "eff = clamp (tp_ts fe) (startTs s) (endTs s)"
  have efflt: "eff < endTs s"
    using assms fe
    by (auto simp: trimAutoNoopSegment_def Let_def P_def [symmetric] eff_def split: if_splits)
  then have se: "startTs s < endTs s"
    by (auto simp: eff_def clamp_def min_def max_def split: if_splits)
  from points_ok [of s] se have okP: "okPoints (startTs s) (endTs s) P"
    by (simp_all add: P_def)
  have fein: "fe \<in> set P" and feE: "isEffective fe" using fe by (auto simp: find_Some_iff)
  have eff: "eff = tp_ts fe"
    using okP fein by (auto simp: okPoints_def eff_def clamp_def)
  define F where "F = filter (\<lambda>point. tp_ts point \<ge> eff) P"
  have feF: "fe \<in> set F" using fein eff by (simp add: F_def)
  then have Fne: "F \<noteq> []" by auto
  have okF: "okPoints eff (endTs s) F"
    using okP by (auto simp: okPoints_def F_def sorted_filter)
  have mapF: "map (\<lambda>point. \<lparr>tp_ts = clamp (tp_ts point) eff (endTs s),
                             tp_rect = normalizeRect (tp_rect point)\<rparr>) F = F"
    using okF by (intro map_idI) (auto simp: okPoints_def clamp_def)
  have hdF: "tp_ts (hd F) = eff"
  proof -
    have "hd (map tp_ts F) \<le> tp_ts fe"
      using okF feF by (intro sorted_hd_le) (auto simp: okPoints_def)
    then have "tp_ts (hd F) \<le> eff" using Fne eff by (simp add: hd_map)
    moreover have "eff \<le> tp_ts (hd F)" using okF Fne by (simp add: okPoints_def)
    ultimately show ?thesis by simp
  qed
  define T where "T = (if tp_ts (last F) < endTs s
                       then F @ [\<lparr>tp_ts = endTs s, tp_rect = tp_rect (last F)\<rparr>] else F)"
  have res: "trimAutoNoopSegment s =
               Some (s\<lparr>startTs := eff, initialRect := Some (tp_rect (hd T)), targetPoints := Some T\<rparr>)"
    using assms(1) Pne fe efflt Fne hdF
    by (simp add: trimAutoNoopSegment_def Let_def P_def [symmetric] eff_def [symmetric]
        F_def [symmetric] mapF T_def)
  have hdT: "hd T = hd F" using Fne by (simp add: T_def)
  have Tne: "T \<noteq> []" using Fne by (simp add: T_def)
  have lastin: "last F \<in> set F" using Fne by simp
  have okT: "okPoints eff (endTs s) T"
    using okF lastin efflt by (auto simp: T_def okPoints_def sorted_append)
  have lastT: "tp_ts (last T) = endTs s"
    using okF lastin by (auto simp: T_def okPoints_def)
  have "find isEffective F = Some fe"
    unfolding F_def using fe eff by (intro find_filter_keep) simp_all
  then have findT: "find isEffective T = Some fe"
    by (simp add: T_def find_append_left)
  have "goodTrim (endTs s) T"
    unfolding goodTrim_def hdT hdF using Tne okT efflt lastT findT eff by simp
  moreover have "s' = s\<lparr>startTs := tp_ts (hd T), initialRect := Some (tp_rect (hd T)), targetPoints := Some T\<rparr>"
    using res assms(2) by (simp add: hdT hdF)
  moreover have "\<forall>p \<in> set T. tp_ts fe \<le> tp_ts p"
    using okT eff by (simp add: okPoints_def)
  moreover have "\<forall>p \<in> set P. tp_ts fe \<le> tp_ts p \<longrightarrow> p \<in> set T"
    using eff by (auto simp: T_def F_def)
  moreover have "tp_ts (hd T) = tp_ts fe" using hdT hdF eff by simp
  ultimately show ?thesis using fe unfolding P_def by blast
qed

lemma trim_fixed:
  assumes "isAuto s" and "targetPoints s = Some T" and "startTs s = tp_ts (hd T)"
    and "initialRect s = Some (tp_rect (hd T))" and "goodTrim (endTs s) T"
  shows "trimAutoNoopSegment s = Some s"
proof -
  from assms(5) obtain fe where Tne: "T \<noteq> []" and okT: "okPoints (startTs s) (endTs s) T"
    and lt: "startTs s < endTs s" and lastT: "tp_ts (last T) = endTs s"
    and fe: "find isEffective T = Some fe" "tp_ts fe = startTs s"
    by (auto simp: goodTrim_def assms(3))
  have mapT: "map (\<lambda>point. \<lparr>tp_ts = clamp (tp_ts point) (startTs s) (endTs s),
                             tp_rect = normalizeRect (tp_rect point)\<rparr>) T = T"
    using okT by (intro map_idI) (auto simp: okPoints_def clamp_def)
  have sortT: "sort_key tp_ts T = T"
    using okT by (simp add: okPoints_def sort_key_id_if_sorted)
  have st: "tp_ts (hd T) = startTs s" using assms(3) by simp
  have P: "getSegmentTargetPoints s = T"
    using Tne lastT st
    by (simp add: getSegmentTargetPoints_def assms(2) mapT sortT Let_def)
  have filt: "filter (\<lambda>point. tp_ts point \<ge> startTs s) T = T"
    using okT by (auto simp: okPoints_def)
  have "trimAutoNoopSegment s =
          Some (s\<lparr>startTs := startTs s, initialRect := Some (tp_rect (hd T)), targetPoints := Some T\<rparr>)"
  proof -
    have c: "clamp (startTs s) (startTs s) (endTs s) = startTs s"
      using lt by (simp add: clamp_def)
    show ?thesis
      using assms(1) Tne fe lt lastT st
      by (simp add: trimAutoNoopSegment_def P Let_def c filt mapT)
  qed
  also have "s\<lparr>startTs := startTs s, initialRect := Some (tp_rect (hd T)), targetPoints := Some T\<rparr> = s"
    using assms(2,4) by simp
  finally show ?thesis .
qed

lemma trim_idempotent: "Option.bind (trimAutoNoopSegment s) trimAutoNoopSegment = trimAutoNoopSegment s"
proof (cases "trimAutoNoopSegment s")
  case None
  then show ?thesis by simp
next
  case (Some s')
  show ?thesis
  proof (cases "isAuto s")
    case False
    then show ?thesis by (simp add: trimAutoNoopSegment_def)
  next
    case True
    from trim_result [OF True Some] obtain T fe where
      s': "s' = s\<lparr>startTs := tp_ts (hd T), initialRect := Some (tp_rect (hd T)), targetPoints := Some T\<rparr>"
      and g: "goodTrim (endTs s) T" by blast
    have "trimAutoNoopSegment s' = Some s'"
      by (rule trim_fixed [where T = T]) (use True g in \<open>simp_all add: s'\<close>)
    then show ?thesis by (simp add: Some)
  qed
qed


lemma demo_trim:
  "trimAutoNoopSegment autoSegment =
     Some (autoSegment\<lparr>startTs := 300, initialRect := Some zoomedRect,
                        targetPoints := Some [\<lparr>tp_ts = 300, tp_rect = zoomedRect\<rparr>,
                                              \<lparr>tp_ts = 1000, tp_rect = zoomedRect\<rparr>]\<rparr>)"
  by code_simp

text \<open>
  C9: trimming an automatic segment is to drop the leading target points without effective
  zoom (zoom strength at most 1.001). The code finds the first effective point by position
  but then keeps the points by timestamp, so a leading point without zoom that shares the
  timestamp of the first effective point is not dropped: on the automatic segment with the
  full frame and a zoomed rectangle both at its start time 100, the trimmed segment still
  begins with the full-frame point, and the full frame becomes its initial rectangle.
\<close>

theorem trimAutoNoop_keeps_tied_point:
  "isAuto tiedSegment
   \<and> targetPoints tiedSegment = Some [\<lparr>tp_ts = 100, tp_rect = FULL_RECT\<rparr>, \<lparr>tp_ts = 100, tp_rect = zoomedRect\<rparr>]
   \<and> getZoomStrength FULL_RECT \<le> 1 + EFFECTIVE_ZOOM_EPSILON
   \<and> 1 + EFFECTIVE_ZOOM_EPSILON < getZoomStrength zoomedRect
   \<and> trimAutoNoopSegment tiedSegment =
       Some (tiedSegment\<lparr>initialRect := Some FULL_RECT,
                          targetPoints := Some [\<lparr>tp_ts = 100, tp_rect = FULL_RECT\<rparr>,
                                                \<lparr>tp_ts = 100, tp_rect = zoomedRect\<rparr>,
                                                \<lparr>tp_ts = 1000, tp_rect = zoomedRect\<rparr>]\<rparr>)"
  by code_simp

subsection \<open>Dragging a segment\<close>

text \<open>The scenario of the specification: of the segments from 1000 to 3000 and from 4000 to
  6000 the first is dragged by 2800 ms; it ends up from 1800 to 3800.\<close>

lemma drag_example:
  "onPointerMove (Some dragDemo) 2900 1 6000 6000 (Some dragDemoSegments)
     = Some [manualSegment ''first'' 1800 3800, manualSegment ''second'' 4000 6000]"
  by code_simp

text \<open>The lower bound of a move is the gap width also for the first segment of the timeline,
  and it has priority: moved without any pointer travel, the segment from 0 to 1000 in front
  of a segment starting at 1200 ends at 1200.\<close>

lemma drag_move_first_segment:
  "onPointerMove (Some \<lparr>segmentId = ''first'', dragMode = DragMove, pointerStartX = 0,
                         initialStartTs = 0, initialEndTs = 1000\<rparr>)
                 0 1 5000 5000
                 (Some [manualSegment ''first'' 0 1000, manualSegment ''second'' 1200 2200])
     = Some [manualSegment ''first'' 200 1200, manualSegment ''second'' 1200 2200]"
  by code_simp

text \<open>
  C7: a resize is to keep the length of the segment at 200 ms or more, and at 1 ms in any
  case. On a timeline of 5000 ms with a segment from 400 to 2000, the gap search places a new
  segment from 0 to 200. Grabbing the start edge of that segment and moving the pointer 10
  pixels to the left sets its start to 200: the resize at the start edge bounds the start
  from below by the gap width (the previous end counting as 0) and lets this bound win over
  both upper bounds, so the segment is left with no length at all.
\<close>

theorem drag_start_resize_collapses:
  "findAvailableGapForSegment [manualSegment ''second'' 400 2000] 5000 0
     = Some \<lparr>slot_startTs = 0, slot_endTs = 200\<rparr>
   \<and> onPointerMove (Some \<lparr>segmentId = ''first'', dragMode = DragStart, pointerStartX = 100,
                           initialStartTs = 0, initialEndTs = 200\<rparr>)
                   90 1 5000 5000
                   (Some [manualSegment ''first'' 0 200, manualSegment ''second'' 400 2000])
       = Some [manualSegment ''first'' 200 200, manualSegment ''second'' 400 2000]
   \<and> endTs (manualSegment ''first'' 200 200) - startTs (manualSegment ''first'' 200 200) < 1"
  by code_simp

section \<open>Properties of the QA smoke check\<close>

lemma disorderCount_Some: "disorderCount (Some p) ts > 0 \<longleftrightarrow> \<not> sorted (p # ts)"
proof (induction ts arbitrary: p)
  case Nil
  show ?case by simp
next
  case (Cons t rest)
  have s2: "sorted (p # t # rest) \<longleftrightarrow> p \<le> t \<and> sorted (t # rest)" by (rule sorted2)
  have d: "disorderCount (Some p) (t # rest) > 0 \<longleftrightarrow> \<not> p \<le> t \<or> disorderCount (Some t) rest > 0"
    by auto
  show ?case unfolding d s2 Cons.IH [of t] by blast
qed

lemma disorderCount_None: "disorderCount None ts > 0 \<longleftrightarrow> \<not> sorted ts"
  by (cases ts) (simp_all add: disorderCount_Some)

lemma timelineWarnings_disorder:
  assumes "\<not> sorted (timestampsOf es)"
  shows "timelineWarnings es = [EventOrderNotMonotonic (disorderCount None (timestampsOf es))]"
proof -
  have "timestampsOf es \<noteq> []" using assms by auto
  moreover have "disorderCount None (timestampsOf es) > 0" using assms by (simp add: disorderCount_None)
  ultimately show ?thesis by (simp add: timelineWarnings_def Let_def)
qed

text \<open>The fails of the event checks read the events through minima and maxima only, so they
  depend on which events there are, not on their order.\<close>

lemma minOf_Min: "xs \<noteq> [] \<Longrightarrow> minOf xs = Min (set xs)"
  by (cases xs) (simp_all add: minOf_def Min.set_eq_fold [symmetric])

lemma maxOf_Max: "xs \<noteq> [] \<Longrightarrow> maxOf xs = Max (set xs)"
  by (cases xs) (simp_all add: maxOf_def Max.set_eq_fold [symmetric])

lemma set_map_filter_cong: "set xs = set ys \<Longrightarrow> set (List.map_filter f xs) = set (List.map_filter f ys)"
  by (auto simp: List.map_filter_def)

lemma empty_iff_set: "set xs = set ys \<Longrightarrow> xs = [] \<longleftrightarrow> ys = []"
  by (metis set_empty)

lemma timelineIssues_reorder:
  assumes "set es' = set es"
  shows "timelineIssues project es' = timelineIssues project es"
proof -
  have s: "set (timestampsOf es') = set (timestampsOf es)"
    unfolding timestampsOf_def by (rule set_map_filter_cong [OF assms])
  show ?thesis
  proof (cases "timestampsOf es = []")
    case True
    then have "timestampsOf es' = []" using s by (simp add: empty_iff_set [OF s])
    with True show ?thesis by (simp add: timelineIssues_def)
  next
    case False
    then have ne: "timestampsOf es' \<noteq> []" using empty_iff_set [OF s] by simp
    show ?thesis
      using False ne s by (simp add: timelineIssues_def Let_def minOf_Min maxOf_Max)
  qed
qed

lemma coordIssues_reorder:
  assumes "set es' = set es"
  shows "coordIssues ev es' = coordIssues ev es"
proof -
  have s: "set (coordEventsOf es') = set (coordEventsOf es)"
    unfolding coordEventsOf_def by (rule set_map_filter_cong [OF assms])
  then have sx: "set (map fst (coordEventsOf es')) = set (map fst (coordEventsOf es))"
    and sy: "set (map snd (coordEventsOf es')) = set (map snd (coordEventsOf es))" by simp_all
  show ?thesis
  proof (cases "coordEventsOf es = []")
    case True
    then have "coordEventsOf es' = []" using empty_iff_set [OF s] by simp
    with True show ?thesis by (simp add: coordIssues_def)
  next
    case False
    then have ne: "coordEventsOf es' \<noteq> []" using empty_iff_set [OF s] by simp
    have x: "minOf (map fst (coordEventsOf es')) = minOf (map fst (coordEventsOf es))"
            "maxOf (map fst (coordEventsOf es')) = maxOf (map fst (coordEventsOf es))"
      using False ne sx by (simp_all add: minOf_Min maxOf_Max)
    have y: "minOf (map snd (coordEventsOf es')) = minOf (map snd (coordEventsOf es))"
            "maxOf (map snd (coordEventsOf es')) = maxOf (map snd (coordEventsOf es))"
      using False ne sy by (simp_all add: minOf_Min maxOf_Max)
    show ?thesis
      unfolding coordIssues_def Let_def x y using False ne by simp
  qed
qed

lemma coordIssues_events: "coordIssues (ev\<lparr>ej_events := v\<rparr>) es = coordIssues ev es"
  by (simp add: coordIssues_def Let_def split: option.splits)

lemma eventsHeaderIssues_events:
  "ej_events ev = Some es \<Longrightarrow> eventsHeaderIssues project (ev\<lparr>ej_events := Some es'\<rparr>) = eventsHeaderIssues project ev"
  by (simp add: eventsHeaderIssues_def)

lemma qaSmoke_reorder:
  assumes "si_events inp = Loaded ev" and "ej_events ev = Some es" and "set es' = set es"
  shows "(qaSmoke inp = Crashed \<longrightarrow> qaSmoke (inp\<lparr>si_events := Loaded (ev\<lparr>ej_events := Some es'\<rparr>)\<rparr>) = Crashed)
       \<and> (\<forall>issues warnings. qaSmoke inp = Finished issues warnings \<longrightarrow>
            (\<exists>warnings'. qaSmoke (inp\<lparr>si_events := Loaded (ev\<lparr>ej_events := Some es'\<rparr>)\<rparr>) = Finished issues warnings'))"
  using assms(1,2)
  by (auto simp: qaSmoke_def Let_def loadedOption_def timelineIssues_reorder [OF assms(3)]
      coordIssues_reorder [OF assms(3)] coordIssues_events eventsHeaderIssues_events [OF assms(2)]
      split: prod.splits)

lemma inTimeOrder_set: "set (inTimeOrder es) = set es"
  by (simp add: inTimeOrder_def)

lemma inTimeOrder_sorted: "sorted (timestampsOf (inTimeOrder es))"
proof -
  define k where "k = (\<lambda>e :: SmokeEvent. case se_ts e of Some t \<Rightarrow> t | None \<Rightarrow> (0::real))"
  have "sorted (map k (inTimeOrder es))" by (simp add: inTimeOrder_def k_def)
  then have "sorted (map k (filter (\<lambda>e. se_ts e \<noteq> None) (inTimeOrder es)))" by (rule sorted_filter)
  moreover have "map k (filter (\<lambda>e. se_ts e \<noteq> None) (inTimeOrder es)) = timestampsOf (inTimeOrder es)"
    by (auto simp: timestampsOf_def List.map_filter_def k_def)
  ultimately show ?thesis by simp
qed


text \<open>The exit code in terms of the checks: 0 exactly when nothing is unreadable, both files
  are there and every list of fails is empty.\<close>

lemma exitCode_zero:
  assumes "si_events inp = Loaded ev" and "ej_events ev = Some es"
  shows "exitCode (qaSmoke inp) = 0 \<longleftrightarrow>
           \<not> (si_checkExport inp \<and> si_latestExport inp = Unreadable)
         \<and> projectIssues (si_project inp) = []
         \<and> eventsHeaderIssues (si_project inp) ev = []
         \<and> (\<exists>vp. si_sourceVideo inp = Loaded vp \<and> probeIssues vp = []
                 \<and> driftIssues (si_project inp) (Some vp) = [])
         \<and> timelineIssues (si_project inp) es = []
         \<and> coordIssues ev es = []
         \<and> (\<exists>zs. pj_zoomSegments (si_project inp) = Some zs
                 \<and> fst (segmentChecks (si_project inp) 0 None zs) = [])"
proof (cases "si_sourceVideo inp")
  case Missing
  then show ?thesis using assms
    by (auto simp: qaSmoke_def exitCode_def Let_def loadedOption_def split: prod.splits)
next
  case Unreadable
  then show ?thesis using assms by (simp add: qaSmoke_def exitCode_def)
next
  case (Loaded vp)
  show ?thesis
  proof (cases "pj_zoomSegments (si_project inp)")
    case None
    then show ?thesis using assms Loaded
      by (auto simp: qaSmoke_def exitCode_def Let_def loadedOption_def)
  next
    case (Some zs)
    obtain si sw where sc: "segmentChecks (si_project inp) 0 None zs = (si, sw)" by force
    show ?thesis using assms Loaded Some sc
      by (auto simp: qaSmoke_def exitCode_def Let_def loadedOption_def)
  qed
qed

lemma exitCode_cases: "exitCode r = 1 \<longleftrightarrow> exitCode r \<noteq> 0"
  by (cases r) (auto simp: exitCode_def)

text \<open>
  C2 as the specification states it: timestamps out of order would be a fail and give exit
  code 1. The script pushes a warning for them; a recording that is fine otherwise passes
  with exit code 0, here with two timestamps below their predecessor.
\<close>

theorem smoke_disorder_exit_counterexample:
  "\<not> sorted (timestampsOf smokeDemoTelemetry)
   \<and> si_events smokeDemo = Loaded smokeDemoEvents
   \<and> ej_events smokeDemoEvents = Some smokeDemoTelemetry
   \<and> qaSmoke smokeDemo = Finished [] [EventOrderNotMonotonic 2]
   \<and> exitCode (qaSmoke smokeDemo) = 0"
  by code_simp

text \<open>
  C2, amended. For every input whose events file is read and holds an array of events: when
  the finite event timestamps are not monotonic (some timestamp is smaller than an earlier
  one, which the loop counts), a run that does not crash reports the ordering as a warning.
  The order of the events has no part in the fails: a run on the same events in any other
  order crashes when this one does, ends with the same list of fails and the same exit code;
  so the exit code is that of the recording with its events put in time order, whose
  timestamps are monotonic. The exit code is 0 exactly when nothing read is unreadable, the
  source video is there and none of the checks of the project, the events header, the video
  probe, the duration drift, the timestamp range, the cursor bounds and the zoom segments
  fails; it is 1 otherwise.
\<close>

theorem smoke_disorder_is_warning:
  assumes "si_events inp = Loaded ev" and "ej_events ev = Some es"
  shows "(\<not> sorted (timestampsOf es) \<longrightarrow>
            (\<forall>issues warnings. qaSmoke inp = Finished issues warnings \<longrightarrow>
               EventOrderNotMonotonic (disorderCount None (timestampsOf es)) \<in> set warnings
             \<and> 0 < disorderCount None (timestampsOf es)))
       \<and> (\<forall>es'. set es' = set es \<longrightarrow>
            (qaSmoke inp = Crashed \<longrightarrow>
               qaSmoke (inp\<lparr>si_events := Loaded (ev\<lparr>ej_events := Some es'\<rparr>)\<rparr>) = Crashed)
          \<and> (\<forall>issues warnings. qaSmoke inp = Finished issues warnings \<longrightarrow>
               (\<exists>warnings'. qaSmoke (inp\<lparr>si_events := Loaded (ev\<lparr>ej_events := Some es'\<rparr>)\<rparr>)
                               = Finished issues warnings'))
          \<and> exitCode (qaSmoke (inp\<lparr>si_events := Loaded (ev\<lparr>ej_events := Some es'\<rparr>)\<rparr>))
              = exitCode (qaSmoke inp))
       \<and> set (inTimeOrder es) = set es
       \<and> sorted (timestampsOf (inTimeOrder es))
       \<and> exitCode (qaSmoke (inp\<lparr>si_events := Loaded (ev\<lparr>ej_events := Some (inTimeOrder es)\<rparr>)\<rparr>))
           = exitCode (qaSmoke inp)
       \<and> (exitCode (qaSmoke inp) = 0 \<longleftrightarrow>
            \<not> (si_checkExport inp \<and> si_latestExport inp = Unreadable)
          \<and> projectIssues (si_project inp) = []
          \<and> eventsHeaderIssues (si_project inp) ev = []
          \<and> (\<exists>vp. si_sourceVideo inp = Loaded vp \<and> probeIssues vp = []
                  \<and> driftIssues (si_project inp) (Some vp) = [])
          \<and> timelineIssues (si_project inp) es = []
          \<and> coordIssues ev es = []
          \<and> (\<exists>zs. pj_zoomSegments (si_project inp) = Some zs
                  \<and> fst (segmentChecks (si_project inp) 0 None zs) = []))
       \<and> (exitCode (qaSmoke inp) = 1 \<longleftrightarrow> exitCode (qaSmoke inp) \<noteq> 0)"
proof -
  have w: "EventOrderNotMonotonic (disorderCount None (timestampsOf es)) \<in> set warnings
           \<and> 0 < disorderCount None (timestampsOf es)"
    if d: "\<not> sorted (timestampsOf es)" and f: "qaSmoke inp = Finished issues warnings"
    for issues warnings
  proof -
    have tw: "timelineWarnings es = [EventOrderNotMonotonic (disorderCount None (timestampsOf es))]"
      using d by (rule timelineWarnings_disorder)
    have "set (timelineWarnings es) \<subseteq> set warnings"
      using f assms
      by (auto simp: qaSmoke_def Let_def loadedOption_def split: if_splits prod.splits)
    with tw show ?thesis using d by (simp add: disorderCount_None)
  qed
  have r: "(qaSmoke inp = Crashed \<longrightarrow>
               qaSmoke (inp\<lparr>si_events := Loaded (ev\<lparr>ej_events := Some es'\<rparr>)\<rparr>) = Crashed)
          \<and> (\<forall>issues warnings. qaSmoke inp = Finished issues warnings \<longrightarrow>
               (\<exists>warnings'. qaSmoke (inp\<lparr>si_events := Loaded (ev\<lparr>ej_events := Some es'\<rparr>)\<rparr>)
                               = Finished issues warnings'))
          \<and> exitCode (qaSmoke (inp\<lparr>si_events := Loaded (ev\<lparr>ej_events := Some es'\<rparr>)\<rparr>))
              = exitCode (qaSmoke inp)"
    if s: "set es' = set es" for es'
  proof -
    note q = qaSmoke_reorder [OF assms s]
    have "exitCode (qaSmoke (inp\<lparr>si_events := Loaded (ev\<lparr>ej_events := Some es'\<rparr>)\<rparr>))
              = exitCode (qaSmoke inp)"
    proof (cases "qaSmoke inp")
      case Crashed
      with q show ?thesis by simp
    next
      case (Finished issues warnings)
      with q obtain warnings' where
        "qaSmoke (inp\<lparr>si_events := Loaded (ev\<lparr>ej_events := Some es'\<rparr>)\<rparr>) = Finished issues warnings'"
        by blast
      with Finished show ?thesis by (simp add: exitCode_def)
    qed
    with q show ?thesis by blast
  qed
  have o: "exitCode (qaSmoke (inp\<lparr>si_events := Loaded (ev\<lparr>ej_events := Some (inTimeOrder es)\<rparr>)\<rparr>))
           = exitCode (qaSmoke inp)"
    using r [OF inTimeOrder_set] by blast
  show ?thesis
    using w r o inTimeOrder_set [of es] inTimeOrder_sorted [of es] exitCode_zero [OF assms]
      exitCode_cases [of "qaSmoke inp"]
    by blast
qed

lemma smokeDemo_result: "qaSmoke smokeDemo = Finished [] [EventOrderNotMonotonic 2]"
  by code_simp

lemma smokeDemo_ordered:
  "inTimeOrder smokeDemoTelemetry =
     [\<lparr>se_ts = Some 3, se_x = Some 7, se_y = Some 7\<rparr>, \<lparr>se_ts = Some 5, se_x = Some 6, se_y = Some 6\<rparr>,
      \<lparr>se_ts = Some 10, se_x = Some 5, se_y = Some 5\<rparr>]"
  by code_simp

lemma smokeDemo_ordered_result:
  "qaSmoke (smokeDemo\<lparr>si_events := Loaded (smokeDemoEvents\<lparr>ej_events := Some (inTimeOrder smokeDemoTelemetry)\<rparr>)\<rparr>)
     = Finished [] []"
  by code_simp

theorem smoke_disorder_is_warning_witness:
  "si_events smokeDemo = Loaded smokeDemoEvents
   \<and> ej_events smokeDemoEvents = Some smokeDemoTelemetry
   \<and> \<not> sorted (timestampsOf smokeDemoTelemetry)
   \<and> qaSmoke smokeDemo = Finished [] [EventOrderNotMonotonic 2]
   \<and> EventOrderNotMonotonic (disorderCount None (timestampsOf smokeDemoTelemetry))
        \<in> set [EventOrderNotMonotonic 2]
   \<and> set (inTimeOrder smokeDemoTelemetry) = set smokeDemoTelemetry
   \<and> qaSmoke (smokeDemo\<lparr>si_events := Loaded (smokeDemoEvents\<lparr>ej_events := Some (inTimeOrder smokeDemoTelemetry)\<rparr>)\<rparr>)
       = Finished [] []
   \<and> exitCode (qaSmoke (smokeDemo\<lparr>si_events := Loaded (smokeDemoEvents\<lparr>ej_events := Some (inTimeOrder smokeDemoTelemetry)\<rparr>)\<rparr>))
       = exitCode (qaSmoke smokeDemo)
   \<and> set (rev smokeDemoTelemetry) = set smokeDemoTelemetry
   \<and> exitCode (qaSmoke (smokeDemo\<lparr>si_events := Loaded (smokeDemoEvents\<lparr>ej_events := Some (rev smokeDemoTelemetry)\<rparr>)\<rparr>))
       = exitCode (qaSmoke smokeDemo)
   \<and> exitCode (qaSmoke smokeDemo) = 0"
proof -
  have a: "si_events smokeDemo = Loaded smokeDemoEvents" by (simp add: smokeDemo_def)
  have b: "ej_events smokeDemoEvents = Some smokeDemoTelemetry" by (simp add: smokeDemoEvents_def)
  have c: "\<not> sorted (timestampsOf smokeDemoTelemetry)" by code_simp
  note t = smoke_disorder_is_warning [OF a b]
  from t c smokeDemo_result
  have d: "EventOrderNotMonotonic (disorderCount None (timestampsOf smokeDemoTelemetry))
        \<in> set [EventOrderNotMonotonic 2]" by blast
  from t have s: "set (inTimeOrder smokeDemoTelemetry) = set smokeDemoTelemetry" by blast
  from t have e: "exitCode (qaSmoke (smokeDemo\<lparr>si_events := Loaded (smokeDemoEvents\<lparr>ej_events := Some (inTimeOrder smokeDemoTelemetry)\<rparr>)\<rparr>))
       = exitCode (qaSmoke smokeDemo)" by blast
  have v: "set (rev smokeDemoTelemetry) = set smokeDemoTelemetry" by simp
  with t have f: "exitCode (qaSmoke (smokeDemo\<lparr>si_events := Loaded (smokeDemoEvents\<lparr>ej_events := Some (rev smokeDemoTelemetry)\<rparr>)\<rparr>))
       = exitCode (qaSmoke smokeDemo)" by blast
  have z: "exitCode (qaSmoke smokeDemo) = 0" using e smokeDemo_ordered_result by (simp add: exitCode_def)
  show ?thesis using a b c d s e f v z smokeDemo_result smokeDemo_ordered_result by simp
qed

end
